theory Spec2Isabelle
  imports
    Main
    "HOL-Library.Char_ord"
    "HOL-Library.List_Lexorder"
    "HOL-Library.Multiset"
begin

section \<open>Python values shared by both programs\<close>

text \<open>
  A Python \<^verbatim>\<open>str\<close> is modelled as a \<^typ>\<open>string\<close>: a list of code points
  below 256 (ASCII and Latin-1). Code points above 255 are outside this model.
\<close>

definition str_isdigit :: "char \<Rightarrow> bool" where
  \<comment> \<open>\<^verbatim>\<open>str.isdigit\<close> on one character: the decimal digits and, as Python counts them,
      the superscript digits U+00B2, U+00B3 and U+00B9.\<close>
  "str_isdigit c =
     (let n = (of_char c :: nat)
      in (48 \<le> n \<and> n \<le> 57) \<or> n = 178 \<or> n = 179 \<or> n = 185)"

section \<open>sms\_bot.py: the SMS notifier\<close>

subsection \<open>format\_phone\_number\<close>

definition format_phone_number :: "string \<Rightarrow> string" where
  "format_phone_number phone =
     (let digits = filter str_isdigit phone;
          digits = (if length digits = 10 then CHR ''1'' # digits else digits)
      in CHR ''+'' # digits)"

subsection \<open>The messaging provider, the clock and the bot\<close>

text \<open>
  The provider call \<^verbatim>\<open>self.client.messages.create(body=..., from_=..., to=...)\<close> is
  external. It either returns a message, of which the code reads \<^verbatim>\<open>sid\<close> and
  \<^verbatim>\<open>status\<close>, or raises, and then the code reads \<^verbatim>\<open>str(e)\<close>. Its outcome may
  depend on everything sent before, so the provider is a function of the earlier requests
  and the current one. \<^verbatim>\<open>datetime.now().isoformat()\<close> is a clock read; the clock gives
  the text of the n-th record's timestamp. What is printed to the terminal is not modelled.
\<close>

record sms_request =
  msg_body :: string
  msg_from :: string
  msg_to :: string

datatype provider_result =
    Created string string  \<comment> \<open>the message's sid and status\<close>
  | Raised string          \<comment> \<open>the exception's text\<close>

type_synonym provider = "sms_request list \<Rightarrow> sms_request \<Rightarrow> provider_result"

type_synonym clock = "nat \<Rightarrow> string"

text \<open>
  The dictionary \<^verbatim>\<open>send_sms\<close> returns has two shapes: with \<^verbatim>\<open>sid\<close> and
  \<^verbatim>\<open>status\<close> on success, with \<^verbatim>\<open>error\<close> on failure.
\<close>

datatype send_result =
    SendOk string string string string "string option"
      \<comment> \<open>to, sid, status, timestamp, name; \<^verbatim>\<open>success\<close> is True\<close>
  | SendFailed string string string "string option"
      \<comment> \<open>to, error, timestamp, name; \<^verbatim>\<open>success\<close> is False\<close>

fun success :: "send_result \<Rightarrow> bool" where
  "success (SendOk _ _ _ _ _) = True"
| "success (SendFailed _ _ _ _) = False"

text \<open>
  The bot: the fields of \<^verbatim>\<open>SurveyBot\<close> the sending code reads and writes, and the
  requests the provider has received so far (kept to state what reaches the provider).
\<close>

record survey_bot =
  from_number :: string
  survey_url :: string
  sent_messages :: "send_result list"
  provider_calls :: "sms_request list"

definition newline :: char where
  "newline = CHR 0x0A"

definition create_message :: "survey_bot \<Rightarrow> string option \<Rightarrow> string" where
  "create_message self name =
     (let greeting =
            (case name of
               None \<Rightarrow> ''Hello!''
             | Some n \<Rightarrow> if n \<noteq> [] then ''Hello '' @ n @ ''!'' else ''Hello!'')
      in greeting @ [newline, newline]
         @ ''You'' @ [CHR 0x27] @ ''re invited to participate in the District 5 Voter Survey for ''
         @ ''Hyde Park, Mattapan, and Readville.'' @ [newline, newline]
         @ ''Your voice matters! Share your thoughts on important community issues.''
         @ [newline, newline]
         @ ''Complete the survey here: '' @ survey_url self @ [newline, newline]
         @ ''Thank you for your participation!'')"

subsection \<open>send\_sms\<close>

text \<open>
  With a \<^verbatim>\<open>str\<close> argument neither \<^verbatim>\<open>format_phone_number\<close> nor
  \<^verbatim>\<open>create_message\<close> raises, so the \<^verbatim>\<open>except\<close> branch is reached only from the
  provider call.
\<close>

definition send_sms ::
  "provider \<Rightarrow> clock \<Rightarrow> survey_bot \<Rightarrow> string \<Rightarrow> string option \<Rightarrow> send_result \<times> survey_bot" where
  "send_sms create now self to_number name =
     (let formatted_number = format_phone_number to_number;
          message_body = create_message self name;
          request = \<lparr>msg_body = message_body, msg_from = from_number self,
                     msg_to = formatted_number\<rparr>;
          timestamp = now (length (sent_messages self));
          outcome = create (provider_calls self) request;
          self = self\<lparr>provider_calls := provider_calls self @ [request]\<rparr>;
          result =
            (case outcome of
               Created sid status \<Rightarrow> SendOk formatted_number sid status timestamp name
             | Raised e \<Rightarrow> SendFailed to_number e timestamp name)
      in (result, self\<lparr>sent_messages := sent_messages self @ [result]\<rparr>))"

subsection \<open>send\_bulk\_sms\<close>

text \<open>
  A recipient is a dictionary with a \<^verbatim>\<open>phone\<close> and an optional \<^verbatim>\<open>name\<close>, both
  strings, as the docstring and the parameter types of \<^verbatim>\<open>send_sms\<close> say.
  \<^verbatim>\<open>recipient.get(k)\<close> is \<^term>\<open>map_of recipient k\<close>.
\<close>

type_synonym recipient = "(string \<times> string) list"

record bulk_results =
  total :: nat
  successful :: nat
  failed :: nat
  details :: "send_result list"

fun send_bulk_loop ::
  "provider \<Rightarrow> clock \<Rightarrow> recipient list \<Rightarrow> bulk_results \<times> survey_bot
     \<Rightarrow> bulk_results \<times> survey_bot" where
  "send_bulk_loop create now [] (results, self) = (results, self)"
| "send_bulk_loop create now (recipient # rest) (results, self) =
     (let phone = map_of recipient ''phone'';
          name = map_of recipient ''name''
      in case phone of
           None \<Rightarrow>
             send_bulk_loop create now rest (results\<lparr>failed := failed results + 1\<rparr>, self)
         | Some p \<Rightarrow>
             if p = [] then
               send_bulk_loop create now rest (results\<lparr>failed := failed results + 1\<rparr>, self)
             else
               (let (result, self) = send_sms create now self p name;
                    results = results\<lparr>details := details results @ [result]\<rparr>;
                    results =
                      (if success result
                       then results\<lparr>successful := successful results + 1\<rparr>
                       else results\<lparr>failed := failed results + 1\<rparr>)
                in send_bulk_loop create now rest (results, self)))"

definition send_bulk_sms ::
  "provider \<Rightarrow> clock \<Rightarrow> survey_bot \<Rightarrow> recipient list \<Rightarrow> bulk_results \<times> survey_bot" where
  "send_bulk_sms create now self recipients =
     send_bulk_loop create now recipients
       (\<lparr>total = length recipients, successful = 0, failed = 0, details = []\<rparr>, self)"

text \<open>
  For the statements about the bulk run: whether a recipient has a phone value (the
  negation of the loop's \<^verbatim>\<open>not phone\<close>), and what sending to a list of recipients one
  after another with \<^verbatim>\<open>send_sms\<close> returns.
\<close>

definition has_phone :: "recipient \<Rightarrow> bool" where
  "has_phone recipient =
     (case map_of recipient ''phone'' of None \<Rightarrow> False | Some p \<Rightarrow> p \<noteq> [])"

definition phone_of :: "recipient \<Rightarrow> string" where
  "phone_of recipient = (case map_of recipient ''phone'' of None \<Rightarrow> [] | Some p \<Rightarrow> p)"

definition record_for :: "recipient \<Rightarrow> send_result \<Rightarrow> bool" where
  \<comment> \<open>the record is the one \<^verbatim>\<open>send_sms\<close> makes for this recipient: its \<^verbatim>\<open>to\<close> is the
      formatted number on success and the raw one on failure, its \<^verbatim>\<open>name\<close> the recipient's\<close>
  "record_for recipient result =
     (case result of
        SendOk to_number sid status timestamp name \<Rightarrow>
          to_number = format_phone_number (phone_of recipient) \<and> name = map_of recipient ''name''
      | SendFailed to_number error timestamp name \<Rightarrow>
          to_number = phone_of recipient \<and> name = map_of recipient ''name'')"

fun send_each ::
  "provider \<Rightarrow> clock \<Rightarrow> survey_bot \<Rightarrow> recipient list \<Rightarrow> send_result list \<times> survey_bot" where
  "send_each create now self [] = ([], self)"
| "send_each create now self (recipient # rest) =
     (let (result, bot1) = send_sms create now self (phone_of recipient) (map_of recipient ''name'');
          (results, bot2) = send_each create now bot1 rest
      in (result # results, bot2))"

text \<open>
  The requests a bot makes for a list of recipients: the composed message, the sender
  number and the formatted phone number of each.
\<close>

definition requests_for :: "survey_bot \<Rightarrow> recipient list \<Rightarrow> sms_request list" where
  "requests_for self recipients =
     map (\<lambda>recipient.
            \<lparr>msg_body = create_message self (map_of recipient ''name''),
             msg_from = from_number self,
             msg_to = format_phone_number (phone_of recipient)\<rparr>) recipients"

text \<open>
  Sample inputs used to instantiate the statements about the bulk run.
\<close>

definition demo_bot :: survey_bot where
  "demo_bot = \<lparr>from_number = ''+15550000000'', survey_url = ''http://localhost:5000/survey.html'',
                sent_messages = [], provider_calls = []\<rparr>"

definition demo_recipients :: "recipient list" where
  "demo_recipients = [[(''phone'', ''6175550100'')], [(''name'', ''Jane'')]]"

section \<open>app.py: the survey service\<close>

subsection \<open>JSON values\<close>

text \<open>
  \<^verbatim>\<open>request.get_json()\<close> returns the parsed request body: \<^verbatim>\<open>None\<close>, a bool, a
  number, a \<^verbatim>\<open>str\<close>, a \<^verbatim>\<open>list\<close> or a \<^verbatim>\<open>dict\<close> with \<^verbatim>\<open>str\<close> keys. A
  \<^verbatim>\<open>dict\<close> keeps its keys in insertion order, so it is an association list;
  \<^verbatim>\<open>d.get(k)\<close> is \<^term>\<open>map_of d k\<close>. Numbers that are not integers (Python
  \<^verbatim>\<open>float\<close>) are outside this model.
\<close>

datatype json =
    JNull
  | JBool bool
  | JInt int
  | JStr string
  | JArr "json list"
  | JObj "(string \<times> json) list"

abbreviation dquote :: char where "dquote \<equiv> CHR 0x22"
abbreviation backslash :: char where "backslash \<equiv> CHR 0x5C"

subsection \<open>The json module: dumps\<close>

text \<open>
  \<^verbatim>\<open>json.dumps\<close> with its default arguments: \<^verbatim>\<open>ensure_ascii=True\<close>, the separators
  \<^verbatim>\<open>", "\<close> and \<^verbatim>\<open>": "\<close>. Every character outside the printable ASCII range becomes
  a \<^verbatim>\<open>\uXXXX\<close> escape with lower-case hexadecimal digits; the quote, the backslash and
  five control characters have two-character escapes. \<^verbatim>\<open>str(i)\<close> of an integer is its
  decimal text.
\<close>

fun digits_of_nat :: "nat \<Rightarrow> string" where
  "digits_of_nat n =
     (if n < 10 then [char_of (48 + n)]
      else digits_of_nat (n div 10) @ [char_of (48 + n mod 10)])"

definition str_of_int :: "int \<Rightarrow> string" where
  "str_of_int i = (if i < 0 then CHR ''-'' # digits_of_nat (nat (- i)) else digits_of_nat (nat i))"

definition hex_digit :: "nat \<Rightarrow> char" where
  "hex_digit n = (if n < 10 then char_of (48 + n) else char_of (87 + n))"

definition escape_char :: "char \<Rightarrow> string" where
  "escape_char c =
     (if c = dquote then [backslash, dquote]
      else if c = backslash then [backslash, backslash]
      else if c = CHR 0x0A then [backslash, CHR ''n'']
      else if c = CHR 0x0D then [backslash, CHR ''r'']
      else if c = CHR 0x09 then [backslash, CHR ''t'']
      else if c = CHR 0x08 then [backslash, CHR ''b'']
      else if c = CHR 0x0C then [backslash, CHR ''f'']
      else if 32 \<le> (of_char c :: nat) \<and> (of_char c :: nat) \<le> 126 then [c]
      else [backslash, CHR ''u'', CHR ''0'', CHR ''0'',
            hex_digit ((of_char c :: nat) div 16), hex_digit ((of_char c :: nat) mod 16)])"

definition encode_string :: "string \<Rightarrow> string" where
  "encode_string s = dquote # concat (map escape_char s) @ [dquote]"

fun join :: "string \<Rightarrow> string list \<Rightarrow> string" where
  "join sep [] = []"
| "join sep [x] = x"
| "join sep (x # y # ys) = x @ sep @ join sep (y # ys)"

fun json_dumps :: "json \<Rightarrow> string" where
  "json_dumps JNull = ''null''"
| "json_dumps (JBool b) = (if b then ''true'' else ''false'')"
| "json_dumps (JInt i) = str_of_int i"
| "json_dumps (JStr s) = encode_string s"
| "json_dumps (JArr xs) = ''['' @ join '', '' (map json_dumps xs) @ '']''"
| "json_dumps (JObj kvs) =
     ''{'' @ join '', '' (map (\<lambda>kv. encode_string (fst kv) @ '': '' @ json_dumps (snd kv)) kvs) @ ''}''"


subsection \<open>The json module: loads\<close>

text \<open>
  \<^verbatim>\<open>json.loads\<close> with its default arguments. \<open>scan_string\<close> is the string scanner after
  the opening quote (strict: a raw control character is an error); an escape
  \<^verbatim>\<open>\uXXXX\<close> above U+00FF leaves the model and is answered with \<open>None\<close>, as is every
  number with a fraction or an exponent and the constants \<^verbatim>\<open>NaN\<close> and
  \<^verbatim>\<open>Infinity\<close>. Where \<open>match_number\<close> reads only an integer prefix of such a number,
  Python fails too, on what follows the prefix. \<open>None\<close> is \<^verbatim>\<open>JSONDecodeError\<close>.
\<close>

definition is_ws :: "char \<Rightarrow> bool" where
  "is_ws c = (c = CHR '' '' \<or> c = CHR 0x09 \<or> c = CHR 0x0A \<or> c = CHR 0x0D)"

definition skip_ws :: "string \<Rightarrow> string" where
  "skip_ws cs = dropWhile is_ws cs"

definition is_dec :: "char \<Rightarrow> bool" where
  "is_dec c = (48 \<le> (of_char c :: nat) \<and> (of_char c :: nat) \<le> 57)"

definition hex_val :: "char \<Rightarrow> nat option" where
  "hex_val c =
     (let n = (of_char c :: nat)
      in if 48 \<le> n \<and> n \<le> 57 then Some (n - 48)
         else if 97 \<le> n \<and> n \<le> 102 then Some (n - 87)
         else if 65 \<le> n \<and> n \<le> 70 then Some (n - 55)
         else None)"

definition unescape :: "char \<Rightarrow> char option" where
  "unescape e =
     (if e = dquote then Some dquote
      else if e = backslash then Some backslash
      else if e = CHR ''/'' then Some CHR ''/''
      else if e = CHR ''b'' then Some (CHR 0x08)
      else if e = CHR ''f'' then Some (CHR 0x0C)
      else if e = CHR ''n'' then Some (CHR 0x0A)
      else if e = CHR ''r'' then Some (CHR 0x0D)
      else if e = CHR ''t'' then Some (CHR 0x09)
      else None)"

definition decode_u :: "char \<Rightarrow> char \<Rightarrow> char \<Rightarrow> char \<Rightarrow> char option" where
  "decode_u h1 h2 h3 h4 =
     (case hex_val h1 of None \<Rightarrow> None | Some a \<Rightarrow>
      case hex_val h2 of None \<Rightarrow> None | Some b \<Rightarrow>
      case hex_val h3 of None \<Rightarrow> None | Some c \<Rightarrow>
      case hex_val h4 of None \<Rightarrow> None | Some d \<Rightarrow>
        (let n = ((a * 16 + b) * 16 + c) * 16 + d
         in if n < 256 then Some (char_of n) else None))"

fun scan_string :: "string \<Rightarrow> (string \<times> string) option" where
  "scan_string [] = None"
| "scan_string (c # cs) =
     (if c = dquote then Some ([], cs)
      else if c = backslash then
        (case cs of
           [] \<Rightarrow> None
         | e # cs1 \<Rightarrow>
             if e = CHR ''u'' then
               (case cs1 of
                  h1 # h2 # h3 # h4 # cs2 \<Rightarrow>
                    (case decode_u h1 h2 h3 h4 of
                       None \<Rightarrow> None
                     | Some x \<Rightarrow> map_option (\<lambda>(s, r). (x # s, r)) (scan_string cs2))
                | _ \<Rightarrow> None)
             else
               (case unescape e of
                  None \<Rightarrow> None
                | Some x \<Rightarrow> map_option (\<lambda>(s, r). (x # s, r)) (scan_string cs1)))
      else if (of_char c :: nat) < 32 then None
      else map_option (\<lambda>(s, r). (c # s, r)) (scan_string cs))"

definition nat_of_digits :: "string \<Rightarrow> nat" where
  "nat_of_digits ds = foldl (\<lambda>n c. 10 * n + ((of_char c :: nat) - 48)) 0 ds"

definition is_float_tail :: "string \<Rightarrow> bool" where
  "is_float_tail r =
     (case r of
        c # d # r' \<Rightarrow>
          (c = CHR ''.'' \<and> is_dec d)
          \<or> ((c = CHR ''e'' \<or> c = CHR ''E'')
              \<and> (is_dec d
                  \<or> ((d = CHR ''+'' \<or> d = CHR ''-'') \<and> (case r' of [] \<Rightarrow> False | x # _ \<Rightarrow> is_dec x))))
      | _ \<Rightarrow> False)"

definition match_number :: "string \<Rightarrow> (int \<times> string) option" where
  "match_number cs =
     (let negative = (case cs of [] \<Rightarrow> False | c # _ \<Rightarrow> c = CHR ''-'');
          cs1 = (if negative then tl cs else cs)
      in case cs1 of
           [] \<Rightarrow> None
         | c # r \<Rightarrow>
             if \<not> is_dec c then None
             else
               (let digits = (if c = CHR ''0'' then [c] else takeWhile is_dec cs1);
                    rest = (if c = CHR ''0'' then r else dropWhile is_dec cs1);
                    n = int (nat_of_digits digits)
                in if is_float_tail rest then None
                   else Some (if negative then - n else n, rest)))"

text \<open>
  \<^verbatim>\<open>d[k] = v\<close> on a \<^verbatim>\<open>dict\<close>: an existing key keeps its place and gets the new
  value, a new key goes to the end. The decoder builds an object from its members this
  way, so of two members with one key the later value stays.
\<close>

fun dict_set :: "(string \<times> 'v) list \<Rightarrow> string \<Rightarrow> 'v \<Rightarrow> (string \<times> 'v) list" where
  "dict_set [] k v = [(k, v)]"
| "dict_set ((k', v') # d) k v = (if k' = k then (k, v) # d else (k', v') # dict_set d k v)"

definition dict_of_pairs :: "(string \<times> 'v) list \<Rightarrow> (string \<times> 'v) list" where
  "dict_of_pairs pairs = foldl (\<lambda>d kv. dict_set d (fst kv) (snd kv)) [] pairs"

text \<open>
  The decoder proper: a value, the elements of an array after its \<^verbatim>\<open>[\<close>, the members
  of an object after its \<^verbatim>\<open>{\<close>. The tests \<open>length r < length cs\<close> on what is left
  after a value are there for the termination proof; they never fail on a text that
  \<^verbatim>\<open>json.dumps\<close> wrote (the round trip below).
\<close>

lemma scan_string_shorter: "scan_string cs = Some (s, r) \<Longrightarrow> length r < length cs"
proof (induction cs arbitrary: s r rule: scan_string.induct)
  case 1
  then show ?case by simp
next
  case (2 c cs)
  then show ?case
    by (fastforce split: if_splits list.splits option.splits)
qed

lemma length_skip_ws: "length (skip_ws cs) \<le> length cs"
  by (simp add: skip_ws_def length_dropWhile_le)

function parse_value :: "string \<Rightarrow> (json \<times> string) option"
  and parse_array :: "string \<Rightarrow> (json list \<times> string) option"
  and parse_object :: "string \<Rightarrow> ((string \<times> json) list \<times> string) option"
where
  "parse_value cs =
     (case cs of
        [] \<Rightarrow> None
      | c # r \<Rightarrow>
          if c = dquote then map_option (\<lambda>(s, r'). (JStr s, r')) (scan_string r)
          else if c = CHR ''{'' then
            (case skip_ws r of
               [] \<Rightarrow> None
             | d # r1 \<Rightarrow>
                 if d = CHR ''}'' then Some (JObj [], r1)
                 else map_option (\<lambda>(kvs, r'). (JObj (dict_of_pairs kvs), r')) (parse_object (d # r1)))
          else if c = CHR ''['' then
            (case skip_ws r of
               [] \<Rightarrow> None
             | d # r1 \<Rightarrow>
                 if d = CHR '']'' then Some (JArr [], r1)
                 else map_option (\<lambda>(vs, r'). (JArr vs, r')) (parse_array (d # r1)))
          else if take 4 cs = ''null'' then Some (JNull, drop 4 cs)
          else if take 4 cs = ''true'' then Some (JBool True, drop 4 cs)
          else if take 5 cs = ''false'' then Some (JBool False, drop 5 cs)
          else map_option (\<lambda>(i, r'). (JInt i, r')) (match_number cs))"
| "parse_array cs =
     (case parse_value cs of
        None \<Rightarrow> None
      | Some (v, r) \<Rightarrow>
          if length r < length cs then
            (case skip_ws r of
               [] \<Rightarrow> None
             | d # r1 \<Rightarrow>
                 if d = CHR '']'' then Some ([v], r1)
                 else if d = CHR '','' then
                   map_option (\<lambda>(vs, r'). (v # vs, r')) (parse_array (skip_ws r1))
                 else None)
          else None)"
| "parse_object cs =
     (case cs of
        [] \<Rightarrow> None
      | q # k \<Rightarrow>
          if q \<noteq> dquote then None
          else
            (case scan_string k of
               None \<Rightarrow> None
             | Some (key, r) \<Rightarrow>
                 (case skip_ws r of
                    [] \<Rightarrow> None
                  | colon # r1 \<Rightarrow>
                      if colon \<noteq> CHR '':'' then None
                      else
                        (case parse_value (skip_ws r1) of
                           None \<Rightarrow> None
                         | Some (v, r2) \<Rightarrow>
                             if length r2 < length r1 then
                               (case skip_ws r2 of
                                  [] \<Rightarrow> None
                                | d # r3 \<Rightarrow>
                                    if d = CHR ''}'' then Some ([(key, v)], r3)
                                    else if d = CHR '','' then
                                      map_option (\<lambda>(kvs, r'). ((key, v) # kvs, r'))
                                        (parse_object (skip_ws r3))
                                    else None)
                             else None))))"
  by pat_completeness auto
termination
proof (relation "measure (\<lambda>x. case x of Inl cs \<Rightarrow> 2 * length cs
                                 | Inr (Inl cs) \<Rightarrow> 2 * length cs + 1
                                 | Inr (Inr cs) \<Rightarrow> 2 * length cs + 1)", goal_cases)
  case 1
  then show ?case by simp
next
  case (2 cs c r d r1)
  then show ?case using length_skip_ws [of r] by simp
next
  case (3 cs c r d r1)
  then show ?case using length_skip_ws [of r] by simp
next
  case (4 cs)
  then show ?case by simp
next
  case (5 cs x v r d r1)
  then show ?case using length_skip_ws [of r] length_skip_ws [of r1] by simp
next
  case (6 cs q k x key r colon r1)
  then show ?case
    using length_skip_ws [of r] length_skip_ws [of r1] scan_string_shorter [of k key r] by simp
next
  case (7 cs q k x key r colon r1 y v r2 d r3)
  then show ?case
    using length_skip_ws [of r] length_skip_ws [of r2] length_skip_ws [of r3]
      scan_string_shorter [of k key r] by simp
qed

definition json_loads :: "string \<Rightarrow> json option" where
  "json_loads s =
     (case parse_value (skip_ws s) of
        None \<Rightarrow> None
      | Some (v, r) \<Rightarrow> if skip_ws r = [] then Some v else None)"



subsection \<open>Notions for the round trip through dumps and loads\<close>

text \<open>
  What \<^verbatim>\<open>json.loads(json.dumps(v))\<close> returns: \<open>v\<close> with every object rebuilt as the
  decoder builds a \<^verbatim>\<open>dict\<close>. On a value whose objects have no key twice, as every
  value made of Python dicts, it is \<open>v\<close> itself. The other three notions describe the
  encoder's text: what may follow an encoded value, the first character of an encoded
  value, and the text of one member of an object.
\<close>

fun canon :: "json \<Rightarrow> json" where
  "canon JNull = JNull"
| "canon (JBool b) = JBool b"
| "canon (JInt i) = JInt i"
| "canon (JStr s) = JStr s"
| "canon (JArr xs) = JArr (map canon xs)"
| "canon (JObj kvs) = JObj (dict_of_pairs (map (\<lambda>kv. (fst kv, canon (snd kv))) kvs))"

definition delimited :: "string \<Rightarrow> bool" where
  "delimited rest =
     (case rest of [] \<Rightarrow> True | c # _ \<Rightarrow> c = CHR '','' \<or> c = CHR '']'' \<or> c = CHR ''}'')"

definition value_start :: "char \<Rightarrow> bool" where
  "value_start c \<longleftrightarrow> \<not> is_ws c \<and> c \<noteq> CHR '']'' \<and> c \<noteq> CHR ''}''"

definition member_text :: "string \<times> json \<Rightarrow> string" where
  "member_text kv = encode_string (fst kv) @ '': '' @ json_dumps (snd kv)"

subsection \<open>Python operations on JSON values\<close>

text \<open>
  The exceptions the handlers can meet, by class. Truth value and \<^verbatim>\<open>len\<close> are
  Python's: \<^verbatim>\<open>None\<close>, \<^verbatim>\<open>False\<close>, \<^verbatim>\<open>0\<close> and the empty string, list and dict
  are false; \<^verbatim>\<open>len\<close> of \<^verbatim>\<open>None\<close>, a bool or an int raises \<^verbatim>\<open>TypeError\<close>.
  \<open>collect\<close> evaluates a list of computations from left to right and stops at the
  first that raises.
\<close>

datatype py_error =
    AttributeError | KeyError | TypeError | OverflowError
  | ProgrammingError | IntegrityError | OperationalError | JSONDecodeError

type_synonym py_dict = "(string \<times> json) list"

fun truthy :: "json \<Rightarrow> bool" where
  "truthy JNull = False"
| "truthy (JBool b) = b"
| "truthy (JInt i) = (i \<noteq> 0)"
| "truthy (JStr s) = (s \<noteq> [])"
| "truthy (JArr xs) = (xs \<noteq> [])"
| "truthy (JObj kvs) = (kvs \<noteq> [])"

definition py_not :: "json option \<Rightarrow> bool" where
  "py_not v = (case v of None \<Rightarrow> True | Some x \<Rightarrow> \<not> truthy x)"

fun py_len :: "json \<Rightarrow> py_error + nat" where
  "py_len (JStr s) = Inr (length s)"
| "py_len (JArr xs) = Inr (length xs)"
| "py_len (JObj kvs) = Inr (length kvs)"
| "py_len JNull = Inl TypeError"
| "py_len (JBool b) = Inl TypeError"
| "py_len (JInt i) = Inl TypeError"

definition getitem :: "py_dict \<Rightarrow> string \<Rightarrow> py_error + json" where
  "getitem d k = (case map_of d k of None \<Rightarrow> Inl KeyError | Some v \<Rightarrow> Inr v)"

definition get_default :: "py_dict \<Rightarrow> string \<Rightarrow> json \<Rightarrow> json" where
  "get_default d k dflt = (case map_of d k of None \<Rightarrow> dflt | Some v \<Rightarrow> v)"

fun collect :: "('e + 'a) list \<Rightarrow> 'e + 'a list" where
  "collect [] = Inr []"
| "collect (Inl e # xs) = Inl e"
| "collect (Inr v # xs) = (case collect xs of Inl e \<Rightarrow> Inl e | Inr vs \<Rightarrow> Inr (v # vs))"

subsection \<open>The database\<close>

text \<open>
  The table \<^verbatim>\<open>responses\<close> created by \<^verbatim>\<open>init_database\<close>: rows in insertion order.
  The columns declared \<^verbatim>\<open>NOT NULL\<close> hold a text, the two others may hold
  \<^verbatim>\<open>NULL\<close>. The type of the \<^verbatim>\<open>issues\<close> column is a parameter: a text in the table,
  a JSON value in what \<^verbatim>\<open>get_responses\<close> returns. \<^verbatim>\<open>sqlite_sequence\<close> is the
  counter SQLite keeps for an \<^verbatim>\<open>AUTOINCREMENT\<close> key: the largest row id used so far.
  \<^verbatim>\<open>init_database\<close> creates the table when it is absent and leaves an existing one
  untouched; the handlers run after it (the main block calls it before
  \<^verbatim>\<open>app.run\<close>), so they work on a database.
\<close>

record 'i row =
  row_id :: int
  row_phone_number :: string
  row_name :: string
  row_email :: "string option"
  row_neighborhood :: string
  row_age_group :: string
  row_voting_frequency :: string
  row_issues :: 'i
  row_engagement :: string
  row_additional_comments :: "string option"
  row_timestamp :: string

record database =
  responses_table :: "string row list"
  sqlite_sequence :: int

definition init_database :: "database option \<Rightarrow> database" where
  "init_database existing =
     (case existing of None \<Rightarrow> \<lparr>responses_table = [], sqlite_sequence = 0\<rparr> | Some db \<Rightarrow> db)"

text \<open>
  The \<^verbatim>\<open>INSERT\<close> statement. The \<^verbatim>\<open>sqlite3\<close> module binds \<^verbatim>\<open>None\<close> as
  \<^verbatim>\<open>NULL\<close>, a bool or int as an \<^verbatim>\<open>INTEGER\<close> (an int outside 64 bits raises
  \<^verbatim>\<open>OverflowError\<close>), a \<^verbatim>\<open>str\<close> as a \<^verbatim>\<open>TEXT\<close>, and refuses a list or dict.
  Every column has \<^verbatim>\<open>TEXT\<close> affinity, which turns an integer into its decimal text.
  The new row id is one more than the largest row id that ever existed, and the insert
  fails when that was the largest 64-bit integer; a \<^verbatim>\<open>NULL\<close> in a \<^verbatim>\<open>NOT NULL\<close>
  column fails with \<^verbatim>\<open>IntegrityError\<close>. A failed statement changes nothing.
\<close>

datatype sql_value = SqlNull | SqlInteger int | SqlText string

fun adapt :: "json \<Rightarrow> py_error + sql_value" where
  "adapt JNull = Inr SqlNull"
| "adapt (JBool b) = Inr (SqlInteger (if b then 1 else 0))"
| "adapt (JInt i) =
     (if - (2 ^ 63) \<le> i \<and> i < 2 ^ 63 then Inr (SqlInteger i) else Inl OverflowError)"
| "adapt (JStr s) = Inr (SqlText s)"
| "adapt (JArr xs) = Inl ProgrammingError"
| "adapt (JObj kvs) = Inl ProgrammingError"

fun text_affinity :: "sql_value \<Rightarrow> string option" where
  "text_affinity SqlNull = None"
| "text_affinity (SqlInteger i) = Some (str_of_int i)"
| "text_affinity (SqlText s) = Some s"

definition max_rowid :: int where
  "max_rowid = 2 ^ 63 - 1"

definition largest_rowid :: "database \<Rightarrow> int" where
  "largest_rowid db = foldr max (map row_id (responses_table db)) (sqlite_sequence db)"

definition insert_response :: "json list \<Rightarrow> database \<Rightarrow> py_error + (int \<times> database)" where
  "insert_response params db =
     (case collect (map adapt params) of
        Inl e \<Rightarrow> Inl e
      | Inr bound \<Rightarrow>
          (case map text_affinity bound of
             [phone_number, name, email, neighborhood, age_group,
              voting_frequency, issues, engagement, additional_comments, timestamp] \<Rightarrow>
               if largest_rowid db \<ge> max_rowid then Inl OperationalError
               else
                 (case those [phone_number, name, neighborhood, age_group,
                              voting_frequency, issues, engagement, timestamp] of
                    Some [phone_number, name, neighborhood, age_group,
                          voting_frequency, issues, engagement, timestamp] \<Rightarrow>
                      (let rowid = largest_rowid db + 1;
                           new = \<lparr>row_id = rowid, row_phone_number = phone_number,
                                  row_name = name, row_email = email,
                                  row_neighborhood = neighborhood, row_age_group = age_group,
                                  row_voting_frequency = voting_frequency, row_issues = issues,
                                  row_engagement = engagement,
                                  row_additional_comments = additional_comments,
                                  row_timestamp = timestamp\<rparr>
                       in Inr (rowid, \<lparr>responses_table = responses_table db @ [new],
                                        sqlite_sequence = rowid\<rparr>))
                  | _ \<Rightarrow> Inl IntegrityError)
           | _ \<Rightarrow> Inl ProgrammingError))"

definition save_to_database :: "py_dict \<Rightarrow> database \<Rightarrow> py_error + (int \<times> database)" where
  "save_to_database data db =
     (case collect
        [getitem data ''phoneNumber'',
         getitem data ''name'',
         Inr (get_default data ''email'' (JStr [])),
         getitem data ''neighborhood'',
         getitem data ''ageGroup'',
         getitem data ''votingFrequency'',
         map_sum id (\<lambda>issues. JStr (json_dumps issues)) (getitem data ''issues''),
         getitem data ''engagement'',
         Inr (get_default data ''additionalComments'' (JStr [])),
         getitem data ''timestamp''] of
        Inl e \<Rightarrow> Inl e
      | Inr params \<Rightarrow> insert_response params db)"

subsection \<open>The files under the data directory and the handlers\<close>

text \<open>
  What the service keeps under \<^verbatim>\<open>data/\<close>: the database, the backup document
  \<^verbatim>\<open>responses.json\<close> (\<open>None\<close> when the file does not exist; otherwise the JSON value
  it holds, \<^verbatim>\<open>json.dump\<close> and \<^verbatim>\<open>json.load\<close> of the file being taken as inverse),
  and the other files by name, which are the CSV exports.
\<close>

record storage =
  store_db :: database
  responses_json :: "json option"
  files :: "(string \<times> string) list"

definition save_to_json :: "py_dict \<Rightarrow> storage \<Rightarrow> py_error + storage" where
  "save_to_json data st =
     (case (case responses_json st of
              None \<Rightarrow> Inr []
            | Some (JArr responses) \<Rightarrow> Inr responses
            | Some _ \<Rightarrow> Inl AttributeError) of
        Inl e \<Rightarrow> Inl e
      | Inr responses \<Rightarrow> Inr (st\<lparr>responses_json := Some (JArr (responses @ [JObj data]))\<rparr>))"

text \<open>
  A handler returns a status code and a JSON body. The bodies have five shapes:
  \<^verbatim>\<open>{error}\<close>, \<^verbatim>\<open>{error, details}\<close> (the details are the text of the exception,
  kept here as the exception), \<^verbatim>\<open>{success, message, id}\<close>,
  \<^verbatim>\<open>{success, count, responses}\<close> and \<^verbatim>\<open>{success, message, filename}\<close>.
  \<^verbatim>\<open>datetime.now()\<close> is an argument of the handler that reads it.
\<close>

datatype body =
    ErrorBody string
  | FailureBody string py_error
  | SavedBody string int
  | ResponsesBody nat "json row list"
  | ExportedBody string string

type_synonym response = "nat \<times> body"

definition required_fields :: "string list" where
  "required_fields =
     [''phoneNumber'', ''name'', ''neighborhood'', ''ageGroup'', ''votingFrequency'', ''engagement'']"

fun first_missing :: "py_dict \<Rightarrow> string list \<Rightarrow> string option" where
  "first_missing data [] = None"
| "first_missing data (field # rest) =
     (if py_not (map_of data field) then Some field else first_missing data rest)"

definition issues_empty :: "py_dict \<Rightarrow> py_error + bool" where
  "issues_empty data =
     (if py_not (map_of data ''issues'') then Inr True
      else case getitem data ''issues'' of
             Inl e \<Rightarrow> Inl e
           | Inr issues \<Rightarrow> (case py_len issues of Inl e \<Rightarrow> Inl e | Inr n \<Rightarrow> Inr (n = 0)))"

definition save_failed :: "py_error \<Rightarrow> response" where
  "save_failed e = (500, FailureBody ''Failed to save survey response'' e)"

definition default_timestamp :: "string \<Rightarrow> py_dict \<Rightarrow> py_dict" where
  "default_timestamp now data =
     (if map_of data ''timestamp'' = None then dict_set data ''timestamp'' (JStr now) else data)"

definition submit_survey :: "string \<Rightarrow> json \<Rightarrow> storage \<Rightarrow> response \<times> storage" where
  "submit_survey now payload st =
     (case payload of
        JObj data \<Rightarrow>
          (case first_missing data required_fields of
             Some field \<Rightarrow> ((400, ErrorBody (''Missing required field: '' @ field)), st)
           | None \<Rightarrow>
               (case issues_empty data of
                  Inl e \<Rightarrow> (save_failed e, st)
                | Inr True \<Rightarrow> ((400, ErrorBody ''At least one issue must be selected''), st)
                | Inr False \<Rightarrow>
                    (let data = default_timestamp now data
                     in case save_to_database data (store_db st) of
                          Inl e \<Rightarrow> (save_failed e, st)
                        | Inr (response_id, db') \<Rightarrow>
                            (let st = st\<lparr>store_db := db'\<rparr>
                             in case save_to_json data st of
                                  Inl e \<Rightarrow> (save_failed e, st)
                                | Inr st \<Rightarrow>
                                    ((200, SavedBody ''Survey response saved successfully''
                                             response_id), st)))))
      | _ \<Rightarrow> (save_failed AttributeError, st))"

text \<open>
  \<^verbatim>\<open>SELECT * FROM responses ORDER BY timestamp DESC\<close>: the rows by descending
  timestamp, compared as texts character by character. SQL leaves the order of rows
  with equal timestamps open; here they keep their insertion order.
\<close>

fun insert_desc :: "'i row \<Rightarrow> 'i row list \<Rightarrow> 'i row list" where
  "insert_desc r [] = [r]"
| "insert_desc r (x # xs) =
     (if row_timestamp r \<le> row_timestamp x then x # insert_desc r xs else r # x # xs)"

definition order_by_timestamp_desc :: "'i row list \<Rightarrow> 'i row list" where
  "order_by_timestamp_desc rows = foldl (\<lambda>sorted r. insert_desc r sorted) [] rows"

definition with_issues :: "'i row \<Rightarrow> 'j \<Rightarrow> 'j row" where
  "with_issues r issues =
     \<lparr>row_id = row_id r, row_phone_number = row_phone_number r, row_name = row_name r,
      row_email = row_email r, row_neighborhood = row_neighborhood r,
      row_age_group = row_age_group r, row_voting_frequency = row_voting_frequency r,
      row_issues = issues, row_engagement = row_engagement r,
      row_additional_comments = row_additional_comments r,
      row_timestamp = row_timestamp r\<rparr>"

fun load_responses :: "string row list \<Rightarrow> py_error + json row list" where
  "load_responses [] = Inr []"
| "load_responses (r # rows) =
     (case json_loads (row_issues r) of
        None \<Rightarrow> Inl JSONDecodeError
      | Some issues \<Rightarrow>
          (case load_responses rows of
             Inl e \<Rightarrow> Inl e
           | Inr responses \<Rightarrow> Inr (with_issues r issues # responses)))"

definition get_responses :: "storage \<Rightarrow> response \<times> storage" where
  "get_responses st =
     (let rows = order_by_timestamp_desc (responses_table (store_db st))
      in case load_responses rows of
           Inl e \<Rightarrow> ((500, FailureBody ''Failed to fetch responses'' e), st)
         | Inr responses \<Rightarrow> ((200, ResponsesBody (length responses) responses), st))"

text \<open>
  The \<^verbatim>\<open>csv\<close> writer with its default dialect: a field that holds a comma, a quote
  or a line break is quoted, with its quotes doubled; \<^verbatim>\<open>None\<close> is written as the empty
  field; lines end in CR LF. The file name's time stamp is an argument.
\<close>

definition csv_field :: "string \<Rightarrow> string" where
  "csv_field s =
     (if \<exists>c \<in> set s. c = CHR '','' \<or> c = dquote \<or> c = CHR 0x0D \<or> c = CHR 0x0A
      then dquote # concat (map (\<lambda>c. if c = dquote then [dquote, dquote] else [c]) s) @ [dquote]
      else s)"

definition csv_line :: "string list \<Rightarrow> string" where
  "csv_line vals = join '','' (map csv_field vals) @ [CHR 0x0D, CHR 0x0A]"

definition columns :: "string list" where
  "columns = [''id'', ''phone_number'', ''name'', ''email'', ''neighborhood'', ''age_group'',
              ''voting_frequency'', ''issues'', ''engagement'', ''additional_comments'',
              ''timestamp'']"

definition row_values :: "string row \<Rightarrow> string list" where
  "row_values r =
     [str_of_int (row_id r), row_phone_number r, row_name r,
      (case row_email r of None \<Rightarrow> [] | Some e \<Rightarrow> e),
      row_neighborhood r, row_age_group r, row_voting_frequency r, row_issues r,
      row_engagement r,
      (case row_additional_comments r of None \<Rightarrow> [] | Some c \<Rightarrow> c),
      row_timestamp r]"

definition export_csv :: "string \<Rightarrow> storage \<Rightarrow> response \<times> storage" where
  "export_csv stamp st =
     (let rows = order_by_timestamp_desc (responses_table (store_db st));
          csv_file = ''data/responses_export_'' @ stamp @ ''.csv'';
          written = (if rows \<noteq> [] then csv_line columns @ concat (map (csv_line \<circ> row_values) rows)
                     else [])
      in ((200, ExportedBody ''CSV exported successfully'' csv_file),
          st\<lparr>files := dict_set (files st) csv_file written\<rparr>))"

text \<open>
  A fresh data directory and a sample submission, used to instantiate statements.
\<close>

definition empty_storage :: storage where
  "empty_storage = \<lparr>store_db = init_database None, responses_json = None, files = []\<rparr>"

definition demo_payload :: json where
  "demo_payload = JObj [(''phoneNumber'', JStr ''6175550100''), (''name'', JStr ''Jane''),
     (''neighborhood'', JStr ''Hyde Park''), (''ageGroup'', JStr ''25-34''),
     (''votingFrequency'', JStr ''always''), (''engagement'', JStr ''high''),
     (''issues'', JArr [JStr ''housing'', JStr ''transit''])]"

subsection \<open>The routes and a run of the service\<close>

text \<open>
  The three routes with a handler modelled here, and a run of the service: requests
  served one after another, each on the storage the one before left. \<open>saved_ids\<close>
  reads the identifiers out of the \<^verbatim>\<open>{success, message, id}\<close> bodies of a run.
\<close>

datatype request = SubmitSurvey string json | GetResponses | ExportCsv string

fun handle :: "request \<Rightarrow> storage \<Rightarrow> response \<times> storage" where
  "handle (SubmitSurvey now payload) st = submit_survey now payload st"
| "handle GetResponses st = get_responses st"
| "handle (ExportCsv stamp) st = export_csv stamp st"

fun serve :: "request list \<Rightarrow> storage \<Rightarrow> response list \<times> storage" where
  "serve [] st = ([], st)"
| "serve (req # reqs) st =
     (let (r, st1) = handle req st;
          (rs, st2) = serve reqs st1
      in (r # rs, st2))"

fun saved_ids :: "response list \<Rightarrow> int list" where
  "saved_ids [] = []"
| "saved_ids ((status, SavedBody message response_id) # rs) = response_id # saved_ids rs"
| "saved_ids (r # rs) = saved_ids rs"

text \<open>
  A payload fails validation when a required field is missing or empty (its value is
  false for Python), or the \<^verbatim>\<open>issues\<close> field is missing or empty.
\<close>

definition fails_validation :: "py_dict \<Rightarrow> bool" where
  "fails_validation data \<longleftrightarrow>
     (\<exists>f \<in> set required_fields. py_not (map_of data f))
     \<or> py_not (map_of data ''issues'') \<or> map_of data ''issues'' = Some (JArr [])"


text \<open>
  A stored row as \<^verbatim>\<open>get_responses\<close> returns it: the same columns, with the text of the
  \<^verbatim>\<open>issues\<close> column read back by \<^verbatim>\<open>json.loads\<close>; \<open>None\<close> when that text is not
  JSON. A database is \<open>issues_valid\<close> when every row's \<^verbatim>\<open>issues\<close> text can be read back.
\<close>

definition decode_row :: "string row \<Rightarrow> json row option" where
  "decode_row r = map_option (with_issues r) (json_loads (row_issues r))"

definition issues_valid :: "database \<Rightarrow> bool" where
  "issues_valid db = list_all (\<lambda>r. json_loads (row_issues r) \<noteq> None) (responses_table db)"

section \<open>Properties of the SMS notifier\<close>

subsection \<open>Properties of format\_phone\_number\<close>

lemma plus_not_digit: "\<not> str_isdigit CHR ''+''"
  by (simp add: str_isdigit_def)

lemma one_is_digit: "str_isdigit CHR ''1''"
  by (simp add: str_isdigit_def)

text \<open>
  Claim C7. The docstring promises E.164 and the comment says that all non-digit characters
  are removed, where a digit is one of 0 to 9. The code filters with \<^verbatim>\<open>str.isdigit\<close>,
  which is also true of the superscript digits. On the nine decimal digits 617555010
  followed by a superscript two the code keeps the superscript, counts it as the tenth
  digit and prepends the country code: the result holds a character that is no decimal
  digit, where stripping the non-digits gives the nine digits after the plus sign.
\<close>

theorem format_phone_number_keeps_superscript:
  "format_phone_number (''617555010'' @ [CHR 0xB2]) = ''+1617555010'' @ [CHR 0xB2]
   \<and> CHR 0xB2 \<notin> set ''0123456789''
   \<and> format_phone_number ''617555010'' = ''+617555010''"
  by (simp add: format_phone_number_def str_isdigit_def)

text \<open>
  Claim C9. \<^verbatim>\<open>format_phone_number\<close> is idempotent: formatting an already formatted
  number returns it unchanged.
\<close>

theorem format_phone_number_idempotent:
  "format_phone_number (format_phone_number s) = format_phone_number s"
  by (simp add: format_phone_number_def Let_def plus_not_digit one_is_digit)

subsection \<open>Properties of send\_bulk\_sms\<close>

lemma send_sms_calls:
  "provider_calls (snd (send_sms create now self p name)) =
     provider_calls self @ [\<lparr>msg_body = create_message self name, msg_from = from_number self,
                              msg_to = format_phone_number p\<rparr>]"
  by (simp add: send_sms_def Let_def)

lemma send_sms_sent:
  "sent_messages (snd (send_sms create now self p name)) =
     sent_messages self @ [fst (send_sms create now self p name)]"
  by (simp add: send_sms_def Let_def)

lemma send_sms_config:
  "from_number (snd (send_sms create now self p name)) = from_number self"
  "survey_url (snd (send_sms create now self p name)) = survey_url self"
  by (simp_all add: send_sms_def Let_def)

lemma create_message_cong:
  "survey_url a = survey_url b \<Longrightarrow> create_message a name = create_message b name"
  by (simp add: create_message_def)

lemma requests_for_cong:
  "survey_url a = survey_url b \<Longrightarrow> from_number a = from_number b \<Longrightarrow>
   requests_for a rs = requests_for b rs"
  by (simp add: requests_for_def create_message_cong [of a b])

lemma send_each_length: "length (fst (send_each create now self rs)) = length rs"
  by (induction rs arbitrary: self) (auto simp: split_def Let_def)

lemma send_each_calls:
  "provider_calls (snd (send_each create now self rs)) = provider_calls self @ requests_for self rs"
proof (induction rs arbitrary: self)
  case Nil
  then show ?case by (simp add: requests_for_def)
next
  case (Cons r rs)
  let ?s1 = "snd (send_sms create now self (phone_of r) (map_of r ''name''))"
  have "requests_for ?s1 rs = requests_for self rs"
    by (rule requests_for_cong) (simp_all add: send_sms_config)
  then show ?case
    using Cons.IH [of ?s1]
    by (simp add: split_def Let_def send_sms_calls) (simp add: requests_for_def)
qed

lemma send_each_sent:
  "sent_messages (snd (send_each create now self rs)) =
     sent_messages self @ fst (send_each create now self rs)"
  by (induction rs arbitrary: self) (auto simp: split_def Let_def send_sms_sent)

lemma send_bulk_loop_eq:
  "snd (send_bulk_loop create now rs (res, self)) = snd (send_each create now self (filter has_phone rs))
   \<and> details (fst (send_bulk_loop create now rs (res, self)))
       = details res @ fst (send_each create now self (filter has_phone rs))
   \<and> total (fst (send_bulk_loop create now rs (res, self))) = total res
   \<and> successful (fst (send_bulk_loop create now rs (res, self)))
       = successful res + length (filter success (fst (send_each create now self (filter has_phone rs))))
   \<and> failed (fst (send_bulk_loop create now rs (res, self)))
       = failed res + length (filter (\<lambda>r. \<not> has_phone r) rs)
         + length (filter (\<lambda>d. \<not> success d) (fst (send_each create now self (filter has_phone rs))))"
proof (induction rs arbitrary: res self)
  case Nil
  then show ?case by simp
next
  case (Cons r rs)
  show ?case
  proof (cases "has_phone r")
    case False
    then have "send_bulk_loop create now (r # rs) (res, self)
        = send_bulk_loop create now rs (res\<lparr>failed := failed res + 1\<rparr>, self)"
      by (auto simp: has_phone_def split: option.splits)
    then show ?thesis
      using Cons.IH [of "res\<lparr>failed := failed res + 1\<rparr>" self] False by simp
  next
    case True
    then obtain p where p: "map_of r ''phone'' = Some p" "p \<noteq> []"
      by (auto simp: has_phone_def split: option.splits)
    then have po: "phone_of r = p" by (simp add: phone_of_def)
    obtain d s1 where d: "send_sms create now self p (map_of r ''name'') = (d, s1)"
      by (cases "send_sms create now self p (map_of r ''name'')")
    let ?res1 = "res\<lparr>details := details res @ [d]\<rparr>"
    let ?res2 = "if success d then ?res1\<lparr>successful := successful ?res1 + 1\<rparr>
                 else ?res1\<lparr>failed := failed ?res1 + 1\<rparr>"
    have step: "send_bulk_loop create now (r # rs) (res, self)
        = send_bulk_loop create now rs (?res2, s1)"
      using p d by (simp add: Let_def)
    show ?thesis
      unfolding step using Cons.IH [of ?res2 s1] True po d
      by (simp add: split_def Let_def)
  qed
qed

text \<open>
  Claim C8. The summary's total is the length of the recipient list. The detail records and
  the final bot are those of calling \<^verbatim>\<open>send_sms\<close> on the recipients that have a phone
  value, one after another in list order; so the provider receives exactly one request for
  each of them, whatever the earlier outcomes were, and none for a recipient without a
  phone value. Every recipient without a phone value is counted as failed.
\<close>

theorem send_bulk_sms_summary:
  "total (fst (send_bulk_sms create now self recipients)) = length recipients
   \<and> (details (fst (send_bulk_sms create now self recipients)),
       snd (send_bulk_sms create now self recipients))
       = send_each create now self (filter has_phone recipients)
   \<and> provider_calls (snd (send_bulk_sms create now self recipients))
       = provider_calls self @ requests_for self (filter has_phone recipients)
   \<and> failed (fst (send_bulk_sms create now self recipients))
       = length (filter (\<lambda>r. \<not> has_phone r) recipients)
         + length (filter (\<lambda>d. \<not> success d) (details (fst (send_bulk_sms create now self recipients))))"
  using send_bulk_loop_eq [of "create" now recipients
      "\<lparr>total = length recipients, successful = 0, failed = 0, details = []\<rparr>" self]
  by (simp add: send_bulk_sms_def send_each_calls prod_eq_iff)

theorem send_bulk_sms_summary_witness:
  "total (fst (send_bulk_sms (\<lambda>_ _. Raised ''unreachable'') (\<lambda>_. ''t'') demo_bot demo_recipients)) = 2
   \<and> failed (fst (send_bulk_sms (\<lambda>_ _. Raised ''unreachable'') (\<lambda>_. ''t'') demo_bot demo_recipients)) = 2
   \<and> map msg_to (provider_calls
        (snd (send_bulk_sms (\<lambda>_ _. Raised ''unreachable'') (\<lambda>_. ''t'') demo_bot demo_recipients)))
       = [''+16175550100'']"
  using send_bulk_sms_summary [of "\<lambda>_ _. Raised ''unreachable''" "\<lambda>_. ''t''" demo_bot demo_recipients]
  by (simp add: demo_bot_def demo_recipients_def has_phone_def phone_of_def requests_for_def
      split_def Let_def send_sms_def format_phone_number_def str_isdigit_def)

lemma send_sms_record:
  "record_for recipient (fst (send_sms create now self (phone_of recipient) (map_of recipient ''name'')))"
  by (simp add: send_sms_def record_for_def Let_def split: provider_result.splits)

lemma send_each_records: "list_all2 record_for rs (fst (send_each create now self rs))"
  by (induction rs arbitrary: self) (simp_all add: split_def Let_def send_sms_record)

text \<open>
  Claim C10. In the summary of a bulk run, successful plus failed equals total. The details
  hold exactly one record per recipient that has a phone value, in list order, each the
  record of its recipient. Successful counts the records of successful sends; failed counts
  the records of failed sends and the recipients without a phone value, who have no record,
  so the details are shorter than total by their number.
\<close>

theorem send_bulk_sms_counts:
  "successful (fst (send_bulk_sms create now self recipients))
     + failed (fst (send_bulk_sms create now self recipients))
     = total (fst (send_bulk_sms create now self recipients))
   \<and> list_all2 record_for (filter has_phone recipients)
        (details (fst (send_bulk_sms create now self recipients)))
   \<and> successful (fst (send_bulk_sms create now self recipients))
     = length (filter success (details (fst (send_bulk_sms create now self recipients))))
   \<and> failed (fst (send_bulk_sms create now self recipients))
     = length (filter (\<lambda>r. \<not> has_phone r) recipients)
       + length (filter (\<lambda>d. \<not> success d) (details (fst (send_bulk_sms create now self recipients))))
   \<and> length (details (fst (send_bulk_sms create now self recipients)))
     = length (filter has_phone recipients)
   \<and> length (details (fst (send_bulk_sms create now self recipients)))
       + length (filter (\<lambda>r. \<not> has_phone r) recipients)
     = total (fst (send_bulk_sms create now self recipients))"
proof -
  let ?ds = "fst (send_each create now self (filter has_phone recipients))"
  have a: "length (filter success ?ds) + length (filter (\<lambda>d. \<not> success d) ?ds) = length ?ds"
    by (rule sum_length_filter_compl)
  have b: "length (filter has_phone recipients) + length (filter (\<lambda>r. \<not> has_phone r) recipients)
      = length recipients"
    by (rule sum_length_filter_compl)
  have c: "length ?ds = length (filter has_phone recipients)"
    by (rule send_each_length)
  have d: "list_all2 record_for (filter has_phone recipients) ?ds"
    by (rule send_each_records)
  show ?thesis
    using send_bulk_loop_eq [of "create" now recipients
      "\<lparr>total = length recipients, successful = 0, failed = 0, details = []\<rparr>" self] a b c d
    by (simp add: send_bulk_sms_def)
qed

theorem send_bulk_sms_counts_witness:
  "successful (fst (send_bulk_sms (\<lambda>_ _. Created ''SM1'' ''queued'') (\<lambda>_. ''t'') demo_bot demo_recipients)) = 1
   \<and> failed (fst (send_bulk_sms (\<lambda>_ _. Created ''SM1'' ''queued'') (\<lambda>_. ''t'') demo_bot demo_recipients)) = 1
   \<and> total (fst (send_bulk_sms (\<lambda>_ _. Created ''SM1'' ''queued'') (\<lambda>_. ''t'') demo_bot demo_recipients)) = 2
   \<and> length (details (fst (send_bulk_sms (\<lambda>_ _. Created ''SM1'' ''queued'') (\<lambda>_. ''t'') demo_bot demo_recipients))) = 1"
  using send_bulk_sms_counts [of "\<lambda>_ _. Created ''SM1'' ''queued''" "\<lambda>_. ''t''" demo_bot demo_recipients]
  by (simp add: send_bulk_sms_def demo_bot_def demo_recipients_def has_phone_def
      split_def Let_def send_sms_def)

section \<open>Properties of the survey service\<close>

subsection \<open>Validation\<close>

lemma first_missing_Some:
  "first_missing data fs = Some f \<Longrightarrow>
     \<exists>pre post. fs = pre @ f # post \<and> py_not (map_of data f)
       \<and> (\<forall>g \<in> set pre. \<not> py_not (map_of data g))"
proof (induction fs)
  case Nil
  then show ?case by simp
next
  case (Cons a fs)
  show ?case
  proof (cases "py_not (map_of data a)")
    case True
    with Cons.prems have "f = a" by simp
    with True show ?thesis by (intro exI [of _ "[]"] exI [of _ fs]) simp
  next
    case False
    with Cons obtain pre post where
      "fs = pre @ f # post" "py_not (map_of data f)" "\<forall>g \<in> set pre. \<not> py_not (map_of data g)"
      by auto
    with False show ?thesis by (intro exI [of _ "a # pre"] exI [of _ post]) simp
  qed
qed

lemma first_missing_None:
  "first_missing data fs = None \<longleftrightarrow> (\<forall>g \<in> set fs. \<not> py_not (map_of data g))"
  by (induction fs) auto

lemma first_missing_split:
  "(\<forall>g \<in> set pre. \<not> py_not (map_of data g)) \<Longrightarrow> py_not (map_of data f) \<Longrightarrow>
   first_missing data (pre @ f # post) = Some f"
  by (induction pre) auto

lemma py_not_absent_or_empty:
  "map_of data f = None \<or> map_of data f = Some (JStr []) \<or> map_of data f = Some JNull
     \<or> map_of data f = Some (JArr []) \<Longrightarrow> py_not (map_of data f)"
  by (auto simp: py_not_def)

text \<open>
  Claim C1. For a payload that is a JSON object, the required fields are checked in the
  order phoneNumber, name, neighborhood, ageGroup, votingFrequency, engagement: when a
  field is missing or empty and all fields before it are present and non-empty, the
  handler answers 400 with the message \<^verbatim>\<open>Missing required field: \<close> followed by that
  field's name. Only when all six are present and non-empty is the issues field looked
  at, and a missing or empty issues value is answered with 400 and the message
  \<^verbatim>\<open>At least one issue must be selected\<close>. Missing or empty is \<^verbatim>\<open>not data.get(field)\<close>:
  an absent field and an empty string are both so.
\<close>

theorem submit_survey_validation:
  "(\<forall>pre f post. required_fields = pre @ f # post
        \<and> (\<forall>g \<in> set pre. \<not> py_not (map_of data g)) \<and> py_not (map_of data f) \<longrightarrow>
      submit_survey now (JObj data) st = ((400, ErrorBody (''Missing required field: '' @ f)), st))
   \<and> ((\<forall>g \<in> set required_fields. \<not> py_not (map_of data g))
        \<and> (py_not (map_of data ''issues'') \<or> map_of data ''issues'' = Some (JArr [])) \<longrightarrow>
      submit_survey now (JObj data) st = ((400, ErrorBody ''At least one issue must be selected''), st))
   \<and> required_fields = [''phoneNumber'', ''name'', ''neighborhood'', ''ageGroup'',
                          ''votingFrequency'', ''engagement'']
   \<and> py_not None \<and> py_not (Some (JStr []))"
proof (intro conjI allI impI)
  fix pre f post
  assume a: "required_fields = pre @ f # post
        \<and> (\<forall>g \<in> set pre. \<not> py_not (map_of data g)) \<and> py_not (map_of data f)"
  then have "first_missing data required_fields = Some f"
    using first_missing_split [of pre data f post] by simp
  then show "submit_survey now (JObj data) st = ((400, ErrorBody (''Missing required field: '' @ f)), st)"
    by (simp add: submit_survey_def)
next
  assume a: "(\<forall>g \<in> set required_fields. \<not> py_not (map_of data g))
        \<and> (py_not (map_of data ''issues'') \<or> map_of data ''issues'' = Some (JArr []))"
  then have n: "first_missing data required_fields = None"
    by (simp add: first_missing_None)
  from a have "py_not (map_of data ''issues'')" by (auto simp: py_not_def)
  then have "issues_empty data = Inr True" by (simp add: issues_empty_def)
  with n show "submit_survey now (JObj data) st = ((400, ErrorBody ''At least one issue must be selected''), st)"
    by (simp add: submit_survey_def)
qed (simp_all add: required_fields_def py_not_def)


theorem submit_survey_validation_witness:
  "submit_survey ''2026-01-01T10:00:00'' (JObj [(''phoneNumber'', JStr ''6175550100'')]) empty_storage
     = ((400, ErrorBody ''Missing required field: name''), empty_storage)
   \<and> submit_survey ''2026-01-01T10:00:00''
         (JObj [(''phoneNumber'', JStr ''6175550100''), (''name'', JStr ''Jane''),
                (''neighborhood'', JStr ''Hyde Park''), (''ageGroup'', JStr ''25-34''),
                (''votingFrequency'', JStr ''always''), (''engagement'', JStr ''high''),
                (''issues'', JArr [])]) empty_storage
     = ((400, ErrorBody ''At least one issue must be selected''), empty_storage)"
proof -
  let ?d1 = "[(''phoneNumber'', JStr ''6175550100'')]"
  let ?d2 = "[(''phoneNumber'', JStr ''6175550100''), (''name'', JStr ''Jane''),
              (''neighborhood'', JStr ''Hyde Park''), (''ageGroup'', JStr ''25-34''),
              (''votingFrequency'', JStr ''always''), (''engagement'', JStr ''high''),
              (''issues'', JArr [])]"
  have a: "required_fields = [''phoneNumber''] @ ''name''
             # [''neighborhood'', ''ageGroup'', ''votingFrequency'', ''engagement'']
           \<and> (\<forall>g \<in> set [''phoneNumber'']. \<not> py_not (map_of ?d1 g)) \<and> py_not (map_of ?d1 ''name'')"
    by (simp add: required_fields_def py_not_def)
  have b: "(\<forall>g \<in> set required_fields. \<not> py_not (map_of ?d2 g))
           \<and> (py_not (map_of ?d2 ''issues'') \<or> map_of ?d2 ''issues'' = Some (JArr []))"
    by (simp add: required_fields_def py_not_def)
  note t1 = submit_survey_validation [of ?d1 "''2026-01-01T10:00:00''" empty_storage]
  note t2 = submit_survey_validation [of ?d2 "''2026-01-01T10:00:00''" empty_storage]
  from t1 a have "submit_survey ''2026-01-01T10:00:00'' (JObj ?d1) empty_storage
     = ((400, ErrorBody (''Missing required field: '' @ ''name'')), empty_storage)"
    by blast
  moreover from t2 b have "submit_survey ''2026-01-01T10:00:00'' (JObj ?d2) empty_storage
     = ((400, ErrorBody ''At least one issue must be selected''), empty_storage)"
    by blast
  ultimately show ?thesis by simp
qed

lemma first_missing_some_field:
  "\<exists>f \<in> set fs. py_not (map_of data f) \<Longrightarrow> \<exists>f. first_missing data fs = Some f"
  by (induction fs) auto

text \<open>
  Claim C2. A JSON object payload that fails validation (a required field missing or
  empty, or the issues value missing or empty) is answered with 400 and nothing is
  written: the storage after the request is the storage before it, so no row is inserted
  and no entry is appended to the backup document.
\<close>

theorem submit_survey_invalid_no_effect:
  "fails_validation data \<Longrightarrow>
     fst (fst (submit_survey now (JObj data) st)) = 400
     \<and> snd (submit_survey now (JObj data) st) = st
     \<and> responses_table (store_db (snd (submit_survey now (JObj data) st))) = responses_table (store_db st)
     \<and> responses_json (snd (submit_survey now (JObj data) st)) = responses_json st"
proof -
  assume f: "fails_validation data"
  have "fst (fst (submit_survey now (JObj data) st)) = 400 \<and> snd (submit_survey now (JObj data) st) = st"
  proof (cases "first_missing data required_fields")
    case (Some f)
    then show ?thesis by (simp add: submit_survey_def)
  next
    case None
    then have "\<not> (\<exists>f \<in> set required_fields. py_not (map_of data f))"
      using first_missing_some_field [of required_fields data] by auto
    with f have "py_not (map_of data ''issues'')"
      by (auto simp: fails_validation_def py_not_def)
    then have "issues_empty data = Inr True" by (simp add: issues_empty_def)
    with None show ?thesis by (simp add: submit_survey_def)
  qed
  then show ?thesis by simp
qed

theorem submit_survey_invalid_no_effect_witness:
  "fails_validation [(''phoneNumber'', JStr ''6175550100'')]
   \<and> fst (fst (submit_survey ''2026-01-01T10:00:00'' (JObj [(''phoneNumber'', JStr ''6175550100'')])
          empty_storage)) = 400
   \<and> snd (submit_survey ''2026-01-01T10:00:00'' (JObj [(''phoneNumber'', JStr ''6175550100'')])
          empty_storage) = empty_storage"
proof -
  have f: "fails_validation [(''phoneNumber'', JStr ''6175550100'')]"
    by (simp add: fails_validation_def required_fields_def py_not_def)
  from submit_survey_invalid_no_effect [OF f, of "''2026-01-01T10:00:00''" empty_storage] f
  show ?thesis by simp
qed

text \<open>
  The backup document changes only in a request answered with 200: a failed insert is
  not followed by a backup write.
\<close>

lemma submit_survey_backup_only_on_200:
  "fst (fst (submit_survey now payload st)) \<noteq> 200 \<Longrightarrow>
     responses_json (snd (submit_survey now payload st)) = responses_json st"
  by (auto simp: submit_survey_def save_failed_def Let_def
      split: json.splits option.splits sum.splits bool.splits prod.splits)

subsection \<open>CSV export\<close>

text \<open>
  Claim C6, as amended. When the table has no rows, the export does not fail: it answers
  200 with the name of the export file, and has written that file empty, without a
  header. Nothing is raised on the way.
\<close>

theorem export_csv_empty_store:
  "responses_table (store_db st) = [] \<Longrightarrow>
     export_csv stamp st =
       ((200, ExportedBody ''CSV exported successfully'' (''data/responses_export_'' @ stamp @ ''.csv'')),
        st\<lparr>files := dict_set (files st) (''data/responses_export_'' @ stamp @ ''.csv'') []\<rparr>)"
  by (simp add: export_csv_def order_by_timestamp_desc_def Let_def)

theorem export_csv_empty_store_witness:
  "responses_table (store_db empty_storage) = []
   \<and> fst (export_csv ''20260101_100000'' empty_storage)
       = (200, ExportedBody ''CSV exported successfully'' ''data/responses_export_20260101_100000.csv'')
   \<and> files (snd (export_csv ''20260101_100000'' empty_storage))
       = [(''data/responses_export_20260101_100000.csv'', [])]"
  using export_csv_empty_store [of empty_storage "''20260101_100000''"]
  by (simp add: empty_storage_def init_database_def)


text \<open>
  The claim as stated has the export fail with status 500 on an empty store; on a fresh
  data directory the answer is 200.
\<close>

theorem export_csv_empty_store_counterexample:
  "responses_table (store_db empty_storage) = []
   \<and> fst (fst (export_csv ''20260101_100000'' empty_storage)) = 200
   \<and> fst (fst (export_csv ''20260101_100000'' empty_storage)) \<noteq> 500"
  by (simp add: export_csv_def order_by_timestamp_desc_def empty_storage_def init_database_def Let_def)


subsection \<open>The round trip through dumps and loads\<close>

declare digits_of_nat.simps [simp del]
declare parse_value.simps [simp del] parse_array.simps [simp del] parse_object.simps [simp del]

lemma hex_val_hex_digit: "n < 16 \<Longrightarrow> hex_val (hex_digit n) = Some n"
  by (auto simp: hex_val_def hex_digit_def Let_def)

lemma decode_u_escape:
  "decode_u CHR ''0'' CHR ''0'' (hex_digit ((of_char c :: nat) div 16)) (hex_digit ((of_char c :: nat) mod 16)) = Some c"
proof -
  have lt: "(of_char c :: nat) < 256" by (rule nat_of_char_less_256)
  have a: "(of_char c :: nat) div 16 < 16" using lt by (simp add: less_mult_imp_div_less)
  have z: "hex_val CHR ''0'' = Some 0" by (simp add: hex_val_def)
  show ?thesis
    using lt by (simp add: decode_u_def z hex_val_hex_digit a Let_def)
qed

lemma scan_string_escape_char:
  "scan_string (escape_char c @ tail) = map_option (\<lambda>(s, r). (c # s, r)) (scan_string tail)"
  by (simp add: escape_char_def decode_u_escape unescape_def)

lemma scan_string_escaped:
  "scan_string (concat (map escape_char s) @ dquote # rest) = Some (s, rest)"
  by (induction s) (simp_all add: scan_string_escape_char del: scan_string.simps, simp)


lemma of_char_digit: "d < 10 \<Longrightarrow> (of_char (char_of (48 + d :: nat)) :: nat) = 48 + d"
  by simp

lemma is_dec_digit: "d < 10 \<Longrightarrow> is_dec (char_of (48 + d :: nat))"
  by (simp add: is_dec_def)

lemma digits_all_dec: "c \<in> set (digits_of_nat n) \<Longrightarrow> is_dec c"
proof (induction n rule: digits_of_nat.induct)
  case (1 n)
  show ?case
  proof (cases "n < 10")
    case True
    with "1.prems" show ?thesis
      by (simp add: digits_of_nat.simps [of n] is_dec_digit)
  next
    case False
    with "1.prems" "1.IH" show ?thesis
      by (auto simp: digits_of_nat.simps [of n] is_dec_digit)
  qed
qed

lemma digits_nonempty: "digits_of_nat n \<noteq> []"
  by (simp add: digits_of_nat.simps [of n])

lemma char_eq_nat: "c = d \<longleftrightarrow> (of_char c :: nat) = of_char d"
  by (rule of_char_eq_iff [symmetric])

lemma digits_zero: "digits_of_nat 0 = ''0''"
  by (simp add: digits_of_nat.simps [of 0] char_eq_nat)

lemma digits_hd: "0 < n \<Longrightarrow> hd (digits_of_nat n) \<noteq> CHR ''0''"
proof (induction n rule: digits_of_nat.induct)
  case (1 n)
  show ?case
  proof (cases "n < 10")
    case True
    with "1.prems" show ?thesis
      by (simp add: digits_of_nat.simps [of n] char_eq_nat)
  next
    case False
    then have "0 < n div 10" by simp
    with False "1.IH" have "hd (digits_of_nat (n div 10)) \<noteq> CHR ''0''" by simp
    with False show ?thesis
      by (simp add: digits_of_nat.simps [of n] digits_nonempty)
  qed
qed

lemma nat_of_digits_snoc:
  "nat_of_digits (ds @ [c]) = 10 * nat_of_digits ds + ((of_char c :: nat) - 48)"
  by (simp add: nat_of_digits_def)

lemma nat_of_digits_digits: "nat_of_digits (digits_of_nat n) = n"
proof (induction n rule: digits_of_nat.induct)
  case (1 n)
  show ?case
  proof (cases "n < 10")
    case True
    then show ?thesis
      by (simp add: digits_of_nat.simps [of n] nat_of_digits_def)
  next
    case False
    with "1.IH" show ?thesis
      by (simp add: digits_of_nat.simps [of n] nat_of_digits_snoc)
  qed
qed

lemma delimited_not_dec: "delimited rest \<Longrightarrow> takeWhile is_dec rest = [] \<and> \<not> is_float_tail rest"
  by (auto simp: delimited_def is_float_tail_def is_dec_def split: list.splits)

lemma take_digits:
  "delimited rest \<Longrightarrow>
     takeWhile is_dec (digits_of_nat n @ rest) = digits_of_nat n
     \<and> dropWhile is_dec (digits_of_nat n @ rest) = rest"
  using delimited_not_dec [of rest]
  by (cases rest) (auto simp: takeWhile_append2 dropWhile_append2 digits_all_dec)

lemma match_number_digits:
  assumes "delimited rest"
  shows "match_number (digits_of_nat n @ rest) = Some (int n, rest)"
proof -
  obtain c ds where ds: "digits_of_nat n = c # ds"
    using digits_nonempty [of n] by (cases "digits_of_nat n") auto
  have dec: "is_dec c" using digits_all_dec [of c n] ds by simp
  then have nm: "c \<noteq> CHR ''-''" by (auto simp: is_dec_def)
  show ?thesis
  proof (cases "c = CHR ''0''")
    case True
    then have "n = 0" using digits_hd [of n] ds by auto
    then have "ds = []" using ds digits_zero by simp
    with True ds \<open>n = 0\<close> assms delimited_not_dec [of rest] show ?thesis
      by (simp add: match_number_def Let_def is_dec_def nat_of_digits_def)
  next
    case False
    have t: "takeWhile is_dec (c # ds @ rest) = c # ds" "dropWhile is_dec (c # ds @ rest) = rest"
      using take_digits [OF assms, of n] ds by simp_all
    have v: "nat_of_digits (c # ds) = n" using nat_of_digits_digits [of n] ds by simp
    show ?thesis
      using False dec nm delimited_not_dec [OF assms] t v
      by (simp add: match_number_def Let_def ds del: takeWhile.simps dropWhile.simps)
  qed
qed

lemma match_number_str_of_int:
  assumes "delimited rest"
  shows "match_number (str_of_int i @ rest) = Some (i, rest)"
proof (cases "i < 0")
  case True
  have "match_number (CHR ''-'' # digits_of_nat (nat (- i)) @ rest) = Some (i, rest)"
  proof -
    let ?n = "nat (- i)"
    obtain c ds where ds: "digits_of_nat ?n = c # ds"
      using digits_nonempty [of ?n] by (cases "digits_of_nat ?n") auto
    have dec: "is_dec c" using digits_all_dec [of c ?n] ds by simp
    have pos: "0 < ?n" using True by simp
    have nz: "c \<noteq> CHR ''0''" using digits_hd [OF pos] ds by simp
    have t: "takeWhile is_dec (c # ds @ rest) = c # ds" "dropWhile is_dec (c # ds @ rest) = rest"
      using take_digits [OF assms, of ?n] ds by simp_all
    have v: "nat_of_digits (c # ds) = ?n" using nat_of_digits_digits [of ?n] ds by simp
    show ?thesis
      using nz dec delimited_not_dec [OF assms] t v True
      by (simp add: match_number_def Let_def ds del: takeWhile.simps dropWhile.simps)
  qed
  with True show ?thesis by (simp add: str_of_int_def)
next
  case False
  then show ?thesis
    using match_number_digits [OF assms, of "nat i"] by (simp add: str_of_int_def)
qed



lemma skip_ws_not_ws: "\<not> is_ws c \<Longrightarrow> skip_ws (c # cs) = c # cs"
  by (simp add: skip_ws_def)

lemma skip_ws_space: "skip_ws (CHR '' '' # cs) = skip_ws cs"
  by (simp add: skip_ws_def is_ws_def)

lemma delimited_skip_ws: "delimited (c # cs) \<Longrightarrow> skip_ws (c # cs) = c # cs"
  by (auto simp: delimited_def skip_ws_def is_ws_def)

lemma str_of_int_start:
  "\<exists>c cs. str_of_int i = c # cs \<and> (c = CHR ''-'' \<or> is_dec c)"
proof (cases "i < 0")
  case True
  then show ?thesis by (simp add: str_of_int_def)
next
  case False
  obtain c cs where "digits_of_nat (nat i) = c # cs"
    using digits_nonempty [of "nat i"] by (cases "digits_of_nat (nat i)") auto
  moreover from this have "is_dec c" using digits_all_dec [of c "nat i"] by simp
  ultimately show ?thesis using False by (simp add: str_of_int_def)
qed

lemma json_dumps_start: "\<exists>c cs. json_dumps v = c # cs \<and> value_start c"
proof (cases v)
  case (JInt i)
  obtain c cs where "str_of_int i = c # cs" "c = CHR ''-'' \<or> is_dec c"
    using str_of_int_start [of i] by blast
  with JInt show ?thesis by (auto simp: value_start_def is_ws_def is_dec_def)
qed (auto simp: value_start_def is_ws_def encode_string_def)

lemma parse_value_null: "parse_value (''null'' @ rest) = Some (JNull, rest)"
  by (simp add: parse_value.simps)

lemma parse_value_true: "parse_value (''true'' @ rest) = Some (JBool True, rest)"
  by (simp add: parse_value.simps)

lemma parse_value_false: "parse_value (''false'' @ rest) = Some (JBool False, rest)"
  by (simp add: parse_value.simps)

lemma parse_value_str:
  "parse_value (encode_string s @ rest) = Some (JStr s, rest)"
  by (simp add: parse_value.simps encode_string_def scan_string_escaped del: scan_string.simps)

lemma parse_value_int:
  assumes "delimited rest"
  shows "parse_value (str_of_int i @ rest) = Some (JInt i, rest)"
proof -
  obtain c cs where s: "str_of_int i = c # cs" and c: "c = CHR ''-'' \<or> is_dec c"
    using str_of_int_start [of i] by blast
  from c have n: "c \<noteq> dquote" "c \<noteq> CHR ''{''" "c \<noteq> CHR ''[''"
      "c \<noteq> CHR ''n''" "c \<noteq> CHR ''t''" "c \<noteq> CHR ''f''"
    by (auto simp: is_dec_def)
  have "parse_value (c # cs @ rest) = map_option (\<lambda>(i, r'). (JInt i, r')) (match_number (c # cs @ rest))"
    using n by (simp add: parse_value.simps [of "c # cs @ rest"])
  then show ?thesis
    using match_number_str_of_int [OF assms, of i] s by simp
qed


lemma delimited_simps:
  "delimited (CHR '']'' # r)" "delimited (CHR ''}'' # r)" "delimited (CHR '','' # r)" "delimited []"
  by (simp_all add: delimited_def)

lemma parse_array_step:
  assumes "parse_value cs = Some (v, r)" "length r < length cs" "skip_ws r = d # r1"
  shows "parse_array cs =
           (if d = CHR '']'' then Some ([v], r1)
            else if d = CHR '','' then
              map_option (\<lambda>(vs, r'). (v # vs, r')) (parse_array (skip_ws r1))
            else None)"
  by (subst parse_array.simps) (simp add: assms)

lemma parse_array_elems:
  assumes "\<And>x rest. x \<in> set (x0 # xs) \<Longrightarrow> delimited rest \<Longrightarrow>
             parse_value (json_dumps x @ rest) = Some (canon x, rest)"
  shows "parse_array (join '', '' (map json_dumps (x0 # xs)) @ CHR '']'' # rest)
           = Some (map canon (x0 # xs), rest)"
  using assms
proof (induction xs arbitrary: x0)
  case Nil
  obtain c cs where d: "json_dumps x0 = c # cs" using json_dumps_start [of x0] by blast
  have pv: "parse_value (json_dumps x0 @ CHR '']'' # rest) = Some (canon x0, CHR '']'' # rest)"
    using Nil [of x0 "CHR '']'' # rest"] by (simp add: delimited_simps)
  have len: "length (CHR '']'' # rest) < length (json_dumps x0 @ CHR '']'' # rest)"
    by (simp add: d)
  have sk: "skip_ws (CHR '']'' # rest) = CHR '']'' # rest"
    by (simp add: delimited_skip_ws delimited_simps)
  show ?case
    using parse_array_step [OF pv len sk] by simp
next
  case (Cons x1 xs)
  obtain c cs where d: "json_dumps x0 = c # cs" using json_dumps_start [of x0] by blast
  obtain c1 cs1 where d1: "json_dumps x1 = c1 # cs1" and v1: "value_start c1"
    using json_dumps_start [of x1] by blast
  define more where "more = join '', '' (map json_dumps (x1 # xs)) @ CHR '']'' # rest"
  have "\<exists>t. more = c1 # t"
    using d1 by (cases xs) (simp_all add: more_def)
  then obtain t where t: "more = c1 # t" by blast
  have sk1: "skip_ws (CHR '' '' # more) = more"
    using t v1 by (simp add: skip_ws_space skip_ws_not_ws value_start_def)
  have pv: "parse_value (json_dumps x0 @ CHR '','' # CHR '' '' # more)
              = Some (canon x0, CHR '','' # CHR '' '' # more)"
    using Cons.prems [of x0 "CHR '','' # CHR '' '' # more"] by (simp add: delimited_simps)
  have len: "length (CHR '','' # CHR '' '' # more)
               < length (json_dumps x0 @ CHR '','' # CHR '' '' # more)"
    by (simp add: d)
  have sk: "skip_ws (CHR '','' # CHR '' '' # more) = CHR '','' # CHR '' '' # more"
    by (simp add: delimited_skip_ws delimited_simps)
  have ih: "parse_array more = Some (map canon (x1 # xs), rest)"
    unfolding more_def using Cons.IH [of x1] Cons.prems by simp
  have j: "join '', '' (map json_dumps (x0 # x1 # xs)) @ CHR '']'' # rest
             = json_dumps x0 @ CHR '','' # CHR '' '' # more"
    by (simp add: more_def)
  show ?case
    unfolding j using parse_array_step [OF pv len sk] by (simp add: sk1 ih)
qed

lemma member_text_start: "\<exists>t. member_text kv = dquote # t"
  by (simp add: member_text_def encode_string_def)

lemma parse_object_step:
  assumes "scan_string k = Some (key, r)" "skip_ws r = CHR '':'' # r1"
    "parse_value (skip_ws r1) = Some (v, r2)" "length r2 < length r1" "skip_ws r2 = d # r3"
  shows "parse_object (dquote # k) =
           (if d = CHR ''}'' then Some ([(key, v)], r3)
            else if d = CHR '','' then
              map_option (\<lambda>(kvs, r'). ((key, v) # kvs, r')) (parse_object (skip_ws r3))
            else None)"
  by (subst parse_object.simps) (simp add: assms del: scan_string.simps)

lemma parse_object_member:
  assumes pv: "parse_value (json_dumps v @ tail) = Some (canon v, tail)"
    and tl: "tail = c # r" "delimited (c # r)"
  shows "parse_object (member_text (k, v) @ tail)
           = (if c = CHR ''}'' then Some ([(k, canon v)], r)
              else if c = CHR '','' then
                map_option (\<lambda>(kvs, r'). ((k, canon v) # kvs, r')) (parse_object (skip_ws r))
              else None)"
proof -
  obtain d ds where d: "json_dumps v = d # ds" and vs: "value_start d"
    using json_dumps_start [of v] by blast
  define after where "after = CHR '' '' # json_dumps v @ tail"
  have m: "member_text (k, v) @ tail
        = dquote # (concat (map escape_char k) @ dquote # CHR '':'' # after)"
    by (simp add: member_text_def encode_string_def after_def)
  have s1: "scan_string (concat (map escape_char k) @ dquote # CHR '':'' # after)
              = Some (k, CHR '':'' # after)"
    by (rule scan_string_escaped)
  have s2: "skip_ws (CHR '':'' # after) = CHR '':'' # after"
    by (simp add: skip_ws_not_ws is_ws_def)
  have "skip_ws after = json_dumps v @ tail"
    using d vs by (simp add: after_def skip_ws_space skip_ws_not_ws value_start_def)
  with pv have s3: "parse_value (skip_ws after) = Some (canon v, tail)" by simp
  have s4: "length tail < length after" by (simp add: after_def)
  have s5: "skip_ws tail = c # r" using tl by (simp add: delimited_skip_ws)
  show ?thesis
    unfolding m using parse_object_step [OF s1 s2 s3 s4 s5] by simp
qed

lemma parse_object_members:
  assumes "\<And>kv rest. kv \<in> set (kv0 # kvs) \<Longrightarrow> delimited rest \<Longrightarrow>
             parse_value (json_dumps (snd kv) @ rest) = Some (canon (snd kv), rest)"
  shows "parse_object (join '', '' (map member_text (kv0 # kvs)) @ CHR ''}'' # rest)
           = Some (map (\<lambda>kv. (fst kv, canon (snd kv))) (kv0 # kvs), rest)"
  using assms
proof (induction kvs arbitrary: kv0)
  case Nil
  have pv: "parse_value (json_dumps (snd kv0) @ CHR ''}'' # rest)
              = Some (canon (snd kv0), CHR ''}'' # rest)"
    using Nil [of kv0 "CHR ''}'' # rest"] by (simp add: delimited_simps)
  show ?case
    using parse_object_member [OF pv, of "CHR ''}''" rest "fst kv0"]
    by (simp add: delimited_simps)
next
  case (Cons kv1 kvs)
  define more where "more = join '', '' (map member_text (kv1 # kvs)) @ CHR ''}'' # rest"
  obtain t1 where t1: "member_text kv1 = dquote # t1" using member_text_start [of kv1] by blast
  have "\<exists>t. more = dquote # t" using t1 by (cases kvs) (simp_all add: more_def)
  then obtain t where t: "more = dquote # t" by blast
  have sk: "skip_ws (CHR '' '' # more) = more"
    using t by (simp add: skip_ws_space skip_ws_not_ws is_ws_def)
  have pv: "parse_value (json_dumps (snd kv0) @ CHR '','' # CHR '' '' # more)
              = Some (canon (snd kv0), CHR '','' # CHR '' '' # more)"
    using Cons.prems [of kv0 "CHR '','' # CHR '' '' # more"] by (simp add: delimited_simps)
  have ih: "parse_object more = Some (map (\<lambda>kv. (fst kv, canon (snd kv))) (kv1 # kvs), rest)"
    unfolding more_def using Cons.IH [of kv1] Cons.prems by simp
  have j: "join '', '' (map member_text (kv0 # kv1 # kvs)) @ CHR ''}'' # rest
             = member_text kv0 @ CHR '','' # CHR '' '' # more"
    by (simp add: more_def)
  show ?case
    unfolding j
    using parse_object_member [OF pv, of "CHR '',''" "CHR '' '' # more" "fst kv0"]
    by (simp add: delimited_simps sk ih)
qed

lemma parse_value_array_step:
  assumes "skip_ws r = d # r1" "d \<noteq> CHR '']''"
  shows "parse_value (CHR ''['' # r) = map_option (\<lambda>(vs, r'). (JArr vs, r')) (parse_array (d # r1))"
  by (subst parse_value.simps) (simp add: assms)

lemma parse_value_object_step:
  assumes "skip_ws r = d # r1" "d \<noteq> CHR ''}''"
  shows "parse_value (CHR ''{'' # r)
           = map_option (\<lambda>(kvs, r'). (JObj (dict_of_pairs kvs), r')) (parse_object (d # r1))"
  by (subst parse_value.simps) (simp add: assms)

lemma parse_value_json_dumps:
  "delimited rest \<Longrightarrow> parse_value (json_dumps v @ rest) = Some (canon v, rest)"
proof (induction v arbitrary: rest)
  case JNull
  then show ?case using parse_value_null by simp
next
  case (JBool b)
  then show ?case using parse_value_true parse_value_false by (cases b) simp_all
next
  case (JInt i)
  then show ?case using parse_value_int by simp
next
  case (JStr s)
  then show ?case using parse_value_str by simp
next
  case (JArr xs)
  show ?case
  proof (cases xs)
    case Nil
    then show ?thesis
      by (simp add: parse_value.simps skip_ws_not_ws is_ws_def)
  next
    case (Cons x0 xs')
    obtain c cs where d: "json_dumps x0 = c # cs" and vs: "value_start c"
      using json_dumps_start [of x0] by blast
    define body where "body = join '', '' (map json_dumps (x0 # xs')) @ CHR '']'' # rest"
    have "\<exists>t. body = c # t" using d by (cases xs') (simp_all add: body_def)
    then obtain t where t: "body = c # t" by blast
    have sk: "skip_ws body = c # t" using t vs by (simp add: skip_ws_not_ws value_start_def)
    have c: "c \<noteq> CHR '']''" using vs by (simp add: value_start_def)
    have el: "parse_array body = Some (map canon (x0 # xs'), rest)"
      unfolding body_def using JArr.IH Cons by (intro parse_array_elems) simp
    have dumped: "json_dumps (JArr xs) @ rest = CHR ''['' # body"
      using Cons by (simp add: body_def)
    show ?thesis
      unfolding dumped using parse_value_array_step [OF sk c] el t Cons by simp
  qed
next
  case (JObj kvs)
  show ?case
  proof (cases kvs)
    case Nil
    then show ?thesis
      by (simp add: parse_value.simps skip_ws_not_ws is_ws_def dict_of_pairs_def)
  next
    case (Cons kv0 kvs')
    define body where "body = join '', '' (map member_text (kv0 # kvs')) @ CHR ''}'' # rest"
    obtain t0 where t0: "member_text kv0 = dquote # t0" using member_text_start [of kv0] by blast
    have "\<exists>t. body = dquote # t" using t0 by (cases kvs') (simp_all add: body_def)
    then obtain t where t: "body = dquote # t" by blast
    have sk: "skip_ws body = dquote # t" using t by (simp add: skip_ws_not_ws is_ws_def)
    have ih: "\<And>kv rest. kv \<in> set (kv0 # kvs') \<Longrightarrow> delimited rest \<Longrightarrow>
        parse_value (json_dumps (snd kv) @ rest) = Some (canon (snd kv), rest)"
    proof -
      fix kv :: "string \<times> json" and rest
      assume a: "kv \<in> set (kv0 # kvs')" "delimited rest"
      obtain k v where kv: "kv = (k, v)" by (cases kv)
      from a kv Cons show "parse_value (json_dumps (snd kv) @ rest) = Some (canon (snd kv), rest)"
        using JObj.IH [of kv v rest] by simp
    qed
    have el: "parse_object body
        = Some (map (\<lambda>kv. (fst kv, canon (snd kv))) (kv0 # kvs'), rest)"
      unfolding body_def using ih by (rule parse_object_members)
    have dumped: "json_dumps (JObj kvs) @ rest = CHR ''{'' # body"
      using Cons by (simp add: body_def member_text_def [abs_def])
    have q: "dquote \<noteq> CHR ''}''" by simp
    show ?thesis
      unfolding dumped using parse_value_object_step [OF sk q] el t Cons by simp
  qed
qed

lemma json_loads_dumps: "json_loads (json_dumps v) = Some (canon v)"
proof -
  obtain c cs where d: "json_dumps v = c # cs" and vs: "value_start c"
    using json_dumps_start [of v] by blast
  have "parse_value (json_dumps v @ []) = Some (canon v, [])"
    by (rule parse_value_json_dumps) (simp add: delimited_simps)
  then show ?thesis
    using d vs by (simp add: json_loads_def skip_ws_not_ws value_start_def) (simp add: skip_ws_def)
qed

lemma canon_strings: "canon (JArr (map JStr xs)) = JArr (map JStr xs)"
  by (induction xs) simp_all


subsection \<open>Row identifiers\<close>

text \<open>
  An insert returns an identifier above every identifier the table has held, and leaves
  the table's largest identifier at least as large; no handler lowers it.
\<close>

lemma foldr_max_ge: "s \<le> foldr max xs (s::int)"
  by (induction xs) (auto simp: max_def)

lemma foldr_max_mono: "a \<le> b \<Longrightarrow> foldr max xs (a::int) \<le> foldr max xs b"
  by (induction xs) (auto simp: max_def)

lemma insert_response_rowid:
  "insert_response params db = Inr (rowid, db') \<Longrightarrow>
     largest_rowid db < rowid \<and> rowid \<le> largest_rowid db'"
proof -
  assume a: "insert_response params db = Inr (rowid, db')"
  then have r: "rowid = largest_rowid db + 1"
    and d: "\<exists>new. db' = \<lparr>responses_table = responses_table db @ [new], sqlite_sequence = rowid\<rparr>"
    by (auto simp: insert_response_def Let_def split: sum.splits list.splits if_splits option.splits)
  from d obtain new where "db' = \<lparr>responses_table = responses_table db @ [new], sqlite_sequence = rowid\<rparr>"
    by blast
  then have "largest_rowid db' = foldr max (map row_id (responses_table db)) (max (row_id new) rowid)"
    by (simp add: largest_rowid_def)
  moreover have "rowid \<le> foldr max (map row_id (responses_table db)) (max (row_id new) rowid)"
    using foldr_max_ge [of "max (row_id new) rowid" "map row_id (responses_table db)"] by simp
  ultimately show ?thesis using r by simp
qed

lemma save_to_database_rowid:
  "save_to_database data db = Inr (rowid, db') \<Longrightarrow>
     largest_rowid db < rowid \<and> rowid \<le> largest_rowid db'"
  by (auto simp: save_to_database_def split: sum.splits dest: insert_response_rowid)

lemma submit_survey_rowid:
  "submit_survey now payload st = (r, st') \<Longrightarrow>
     largest_rowid (store_db st) \<le> largest_rowid (store_db st')
     \<and> (\<forall>status message i. r = (status, SavedBody message i) \<longrightarrow>
          largest_rowid (store_db st) < i \<and> i \<le> largest_rowid (store_db st'))"
  by (auto simp: submit_survey_def save_failed_def save_to_json_def Let_def
      split: json.splits option.splits sum.splits bool.splits prod.splits if_splits
      dest!: save_to_database_rowid)

lemma handle_rowid:
  "handle req st = (r, st') \<Longrightarrow>
     largest_rowid (store_db st) \<le> largest_rowid (store_db st')
     \<and> (\<forall>status message i. r = (status, SavedBody message i) \<longrightarrow>
          largest_rowid (store_db st) < i \<and> i \<le> largest_rowid (store_db st'))"
proof (cases req)
  case (SubmitSurvey now payload)
  assume "handle req st = (r, st')"
  with SubmitSurvey show ?thesis using submit_survey_rowid [of now payload st r st'] by simp
next
  case GetResponses
  assume "handle req st = (r, st')"
  with GetResponses show ?thesis
    by (auto simp: get_responses_def Let_def split: sum.splits)
next
  case (ExportCsv stamp)
  assume "handle req st = (r, st')"
  with ExportCsv show ?thesis
    by (auto simp: export_csv_def Let_def)
qed

lemma saved_ids_Cons:
  "saved_ids (r # rs) =
     (case r of (status, SavedBody message i) \<Rightarrow> i # saved_ids rs | _ \<Rightarrow> saved_ids rs)"
  by (cases r; cases "snd r") auto

lemma serve_ids:
  "sorted_wrt (<) (saved_ids (fst (serve reqs st)))
   \<and> (\<forall>i \<in> set (saved_ids (fst (serve reqs st))). largest_rowid (store_db st) < i)"
proof (induction reqs arbitrary: st)
  case Nil
  then show ?case by simp
next
  case (Cons req reqs)
  obtain r st1 where h: "handle req st = (r, st1)" by (cases "handle req st")
  note hr = handle_rowid [OF h]
  note ih = Cons.IH [of st1]
  have s: "fst (serve (req # reqs) st) = r # fst (serve reqs st1)"
    using h by (simp add: split_def Let_def)
  show ?case
  proof (cases "\<exists>status message i. r = (status, SavedBody message i)")
    case True
    then obtain status message i where r: "r = (status, SavedBody message i)" by blast
    with hr have i: "largest_rowid (store_db st) < i" "i \<le> largest_rowid (store_db st1)" by auto
    have "saved_ids (r # fst (serve reqs st1)) = i # saved_ids (fst (serve reqs st1))"
      using r by simp
    with ih i s show ?thesis by fastforce
  next
    case False
    then have "saved_ids (r # fst (serve reqs st1)) = saved_ids (fst (serve reqs st1))"
      by (cases r; cases "snd r") auto
    with ih hr s show ?thesis by fastforce
  qed
qed

text \<open>
  Claim C4. In every run of the service the identifiers returned by the successful
  submissions are strictly increasing in the order of the requests, whatever other
  requests come between them; and of two successful calls of \<^verbatim>\<open>save_to_database\<close>,
  the second on the database the first left, the later returns the greater identifier.
\<close>

theorem insert_ids_strictly_increasing:
  "sorted_wrt (<) (saved_ids (fst (serve reqs st)))
   \<and> (save_to_database data1 db0 = Inr (id1, db1) \<and> save_to_database data2 db1 = Inr (id2, db2)
        \<longrightarrow> id1 < id2)"
proof
  show "sorted_wrt (<) (saved_ids (fst (serve reqs st)))"
    using serve_ids [of reqs st] by simp
next
  show "save_to_database data1 db0 = Inr (id1, db1) \<and> save_to_database data2 db1 = Inr (id2, db2)
        \<longrightarrow> id1 < id2"
    using save_to_database_rowid [of data1 db0 id1 db1] save_to_database_rowid [of data2 db1 id2 db2]
    by auto
qed

theorem insert_ids_strictly_increasing_witness:
  "saved_ids (fst (serve [SubmitSurvey ''2026-01-01T10:00:00'' demo_payload, GetResponses,
                          SubmitSurvey ''2026-01-02T10:00:00'' demo_payload] empty_storage)) = [1, 2]
   \<and> sorted_wrt (<) (saved_ids (fst (serve [SubmitSurvey ''2026-01-01T10:00:00'' demo_payload,
                          GetResponses,
                          SubmitSurvey ''2026-01-02T10:00:00'' demo_payload] empty_storage)))"
proof -
  have e: "saved_ids (fst (serve [SubmitSurvey ''2026-01-01T10:00:00'' demo_payload, GetResponses,
                          SubmitSurvey ''2026-01-02T10:00:00'' demo_payload] empty_storage)) = [1, 2]"
    by code_simp
  from insert_ids_strictly_increasing [of "[SubmitSurvey ''2026-01-01T10:00:00'' demo_payload,
      GetResponses, SubmitSurvey ''2026-01-02T10:00:00'' demo_payload]" empty_storage] e
  show ?thesis by simp
qed

subsection \<open>Listing the responses\<close>

text \<open>
  \<^verbatim>\<open>ORDER BY timestamp DESC\<close> keeps every row and puts the later timestamps first.
\<close>

lemma mset_insert_desc: "mset (insert_desc r xs) = add_mset r (mset xs)"
  by (induction xs) auto

lemma set_insert_desc: "set (insert_desc r xs) = insert r (set xs)"
  by (induction xs) auto

lemma sorted_insert_desc:
  "sorted_wrt (\<lambda>a b. row_timestamp b \<le> row_timestamp a) xs \<Longrightarrow>
     sorted_wrt (\<lambda>a b. row_timestamp b \<le> row_timestamp a) (insert_desc r xs)"
proof (induction xs)
  case Nil
  then show ?case by simp
next
  case (Cons x xs)
  show ?case
  proof (cases "row_timestamp r \<le> row_timestamp x")
    case True
    with Cons show ?thesis by (auto simp: set_insert_desc)
  next
    case False
    then have "row_timestamp x \<le> row_timestamp r" by simp
    with Cons.prems False show ?thesis by (auto intro: order_trans)
  qed
qed

lemma foldl_insert_desc:
  "sorted_wrt (\<lambda>a b. row_timestamp b \<le> row_timestamp a) acc \<Longrightarrow>
     sorted_wrt (\<lambda>a b. row_timestamp b \<le> row_timestamp a)
       (foldl (\<lambda>sorted r. insert_desc r sorted) acc rows)
     \<and> mset (foldl (\<lambda>sorted r. insert_desc r sorted) acc rows) = mset acc + mset rows"
  by (induction rows arbitrary: acc) (simp_all add: sorted_insert_desc mset_insert_desc)


lemma order_by_timestamp_desc_mset: "mset (order_by_timestamp_desc rows) = mset rows"
  using foldl_insert_desc [of "[]" rows] by (simp add: order_by_timestamp_desc_def)

lemma row_timestamp_with_issues: "row_timestamp (with_issues r j) = row_timestamp r"
  by (simp add: with_issues_def)

lemma row_id_with_issues: "row_id (with_issues r j) = row_id r"
  by (simp add: with_issues_def)

lemma row_issues_with_issues: "row_issues (with_issues r j) = j"
  by (simp add: with_issues_def)

lemma load_responses_valid:
  "list_all (\<lambda>r. json_loads (row_issues r) \<noteq> None) rows \<Longrightarrow>
     \<exists>responses. load_responses rows = Inr responses
       \<and> map Some responses = map decode_row rows
       \<and> map row_timestamp responses = map row_timestamp rows"
proof (induction rows)
  case Nil
  then show ?case by simp
next
  case (Cons r rows)
  then obtain responses where l: "load_responses rows = Inr responses"
    and d: "map Some responses = map decode_row rows"
    and t: "map row_timestamp responses = map row_timestamp rows" by auto
  from Cons.prems obtain issues where i: "json_loads (row_issues r) = Some issues" by auto
  from l d t i show ?case by (simp add: decode_row_def row_timestamp_with_issues)
qed



text \<open>
  What a successful statement does to the database: every saved row holds in its
  \<^verbatim>\<open>issues\<close> column the \<^verbatim>\<open>json.dumps\<close> of the submitted value, so every database the
  service builds is \<open>issues_valid\<close>.
\<close>

lemma collect_Inr:
  "collect xs = Inr vs \<Longrightarrow> xs = map Inr vs"
proof (induction xs arbitrary: vs)
  case Nil
  then show ?case by simp
next
  case (Cons x xs)
  then show ?case by (cases x) (auto split: sum.splits)
qed

lemma map10:
  "[a0, a1, a2, a3, a4, a5, a6, a7, a8, a9] = map f vs \<Longrightarrow>
     \<exists>p0 p1 p2 p3 p4 p5 p6 p7 p8 p9. vs = [p0, p1, p2, p3, p4, p5, p6, p7, p8, p9]
       \<and> a0 = f p0 \<and> a1 = f p1 \<and> a2 = f p2 \<and> a3 = f p3 \<and> a4 = f p4 \<and> a5 = f p5
       \<and> a6 = f p6 \<and> a7 = f p7 \<and> a8 = f p8 \<and> a9 = f p9"
  by (simp add: Cons_eq_map_conv) blast


lemma insert_response_Inr:
  assumes "insert_response [p0, p1, p2, p3, p4, p5, JStr s, p7, p8, p9] db = Inr (rowid, db')"
  shows "\<exists>new. db' = \<lparr>responses_table = responses_table db @ [new], sqlite_sequence = rowid\<rparr>
           \<and> row_id new = rowid \<and> row_issues new = s \<and> rowid = largest_rowid db + 1"
proof -
  let ?params = "[p0, p1, p2, p3, p4, p5, JStr s, p7, p8, p9]"
  from assms obtain bound where b: "collect (map adapt ?params) = Inr bound"
    by (cases "collect (map adapt ?params)") (simp_all add: insert_response_def)
  from collect_Inr [OF b] have "[adapt p0, adapt p1, adapt p2, adapt p3, adapt p4, adapt p5,
      adapt (JStr s), adapt p7, adapt p8, adapt p9] = map Inr bound" by simp
  from map10 [OF this] obtain b0 b1 b2 b3 b4 b5 b6 b7 b8 b9 where
    bs: "bound = [b0, b1, b2, b3, b4, b5, b6, b7, b8, b9]" and b6: "adapt (JStr s) = Inr b6"
    by blast
  from b6 have b6': "b6 = SqlText s" by simp
  from assms b have "(if max_rowid \<le> largest_rowid db then Inl OperationalError
       else case those [text_affinity b0, text_affinity b1, text_affinity b3, text_affinity b4,
                        text_affinity b5, Some s, text_affinity b7, text_affinity b9] of
              Some [phone_number, name, neighborhood, age_group, voting_frequency, issues,
                    engagement, timestamp] \<Rightarrow>
                (let rowid = largest_rowid db + 1;
                     new = \<lparr>row_id = rowid, row_phone_number = phone_number,
                            row_name = name, row_email = text_affinity b2,
                            row_neighborhood = neighborhood, row_age_group = age_group,
                            row_voting_frequency = voting_frequency, row_issues = issues,
                            row_engagement = engagement,
                            row_additional_comments = text_affinity b8,
                            row_timestamp = timestamp\<rparr>
                 in Inr (rowid, \<lparr>responses_table = responses_table db @ [new],
                                  sqlite_sequence = rowid\<rparr>))
            | _ \<Rightarrow> Inl IntegrityError) = Inr (rowid, db')"
    by (simp add: insert_response_def bs b6')
  then show ?thesis
    by (auto simp: Let_def split: if_splits option.splits)
qed


lemma save_to_database_Inr:
  assumes "save_to_database data db = Inr (rowid, db')"
  shows "\<exists>new issues. map_of data ''issues'' = Some issues
           \<and> db' = \<lparr>responses_table = responses_table db @ [new], sqlite_sequence = rowid\<rparr>
           \<and> row_id new = rowid \<and> row_issues new = json_dumps issues
           \<and> rowid = largest_rowid db + 1"
proof -
  let ?args = "[getitem data ''phoneNumber'', getitem data ''name'',
         Inr (get_default data ''email'' (JStr [])), getitem data ''neighborhood'',
         getitem data ''ageGroup'', getitem data ''votingFrequency'',
         map_sum id (\<lambda>issues. JStr (json_dumps issues)) (getitem data ''issues''),
         getitem data ''engagement'', Inr (get_default data ''additionalComments'' (JStr [])),
         getitem data ''timestamp'']"
  from assms obtain params where c: "collect ?args = Inr params"
    and i: "insert_response params db = Inr (rowid, db')"
    by (cases "collect ?args") (simp_all add: save_to_database_def)
  from collect_Inr [OF c] have "?args = map Inr params" .
  from map10 [OF this] obtain p0 p1 p2 p3 p4 p5 p6 p7 p8 p9 where
    ps: "params = [p0, p1, p2, p3, p4, p5, p6, p7, p8, p9]"
    and p6: "map_sum id (\<lambda>issues. JStr (json_dumps issues)) (getitem data ''issues'') = Inr p6"
    by blast
  from p6 obtain issues where iss: "map_of data ''issues'' = Some issues"
    and p6': "p6 = JStr (json_dumps issues)"
    by (cases "map_of data ''issues''") (auto simp: getitem_def)
  from i ps p6' have "insert_response [p0, p1, p2, p3, p4, p5, JStr (json_dumps issues), p7, p8, p9] db
      = Inr (rowid, db')" by simp
  from insert_response_Inr [OF this] iss show ?thesis by blast
qed

lemma submit_survey_effect:
  assumes "submit_survey now (JObj data) st = (r, st')"
  shows "(st' = st \<and> fst r \<noteq> 200)
       \<or> (\<exists>rowid db'. save_to_database (default_timestamp now data) (store_db st) = Inr (rowid, db')
             \<and> store_db st' = db'
             \<and> (fst r = 200 \<longrightarrow> r = (200, SavedBody ''Survey response saved successfully'' rowid)))"
  using assms
  by (auto simp: submit_survey_def save_failed_def save_to_json_def Let_def
      split: option.splits sum.splits bool.splits json.splits)


lemma map_of_dict_set: "map_of (dict_set d k v) k' = (if k' = k then Some v else map_of d k')"
  by (induction d) auto

lemma default_timestamp_issues:
  "map_of (default_timestamp now data) ''issues'' = map_of data ''issues''"
  by (simp add: default_timestamp_def map_of_dict_set)

lemma submit_survey_saved:
  assumes "submit_survey now (JObj data) st = ((200, SavedBody message rowid), st')"
    and "map_of data ''issues'' = Some issues"
  shows "\<exists>new. store_db st' = \<lparr>responses_table = responses_table (store_db st) @ [new],
                                sqlite_sequence = rowid\<rparr>
           \<and> row_id new = rowid \<and> row_issues new = json_dumps issues
           \<and> rowid = largest_rowid (store_db st) + 1"
proof -
  from submit_survey_effect [OF assms(1)] obtain rowid' db' where
    d: "save_to_database (default_timestamp now data) (store_db st) = Inr (rowid', db')"
    and e: "store_db st' = db'"
    and r: "(200, SavedBody message rowid) = (200, SavedBody ''Survey response saved successfully'' rowid')"
    by auto
  from save_to_database_Inr [OF d] assms(2) e r show ?thesis
    by (auto simp: default_timestamp_issues)
qed

lemma submit_survey_db:
  "store_db (snd (submit_survey now payload st)) = store_db st
   \<or> (\<exists>new issues. store_db (snd (submit_survey now payload st))
          = \<lparr>responses_table = responses_table (store_db st) @ [new],
             sqlite_sequence = row_id new\<rparr>
        \<and> row_issues new = json_dumps issues)"
proof (cases payload)
  case (JObj data)
  obtain r st' where s: "submit_survey now (JObj data) st = (r, st')"
    by (cases "submit_survey now (JObj data) st")
  from submit_survey_effect [OF s] show ?thesis
  proof
    assume "st' = st \<and> fst r \<noteq> 200"
    with s JObj show ?thesis by simp
  next
    assume "\<exists>rowid db'. save_to_database (default_timestamp now data) (store_db st) = Inr (rowid, db')
             \<and> store_db st' = db'
             \<and> (fst r = 200 \<longrightarrow> r = (200, SavedBody ''Survey response saved successfully'' rowid))"
    then obtain rowid db' where
      d: "save_to_database (default_timestamp now data) (store_db st) = Inr (rowid, db')"
      and e: "store_db st' = db'" by blast
    from save_to_database_Inr [OF d] e s JObj show ?thesis by auto
  qed
qed (simp_all add: submit_survey_def)

lemma export_csv_db: "store_db (snd (export_csv stamp st)) = store_db st"
  by (simp add: export_csv_def Let_def)

lemma get_responses_state: "snd (get_responses st) = st"
  by (simp add: get_responses_def Let_def split: sum.splits)

lemma submit_survey_issues_valid:
  assumes "issues_valid (store_db st)"
  shows "issues_valid (store_db (snd (submit_survey now payload st)))"
  using submit_survey_db [of now payload st]
proof
  assume "store_db (snd (submit_survey now payload st)) = store_db st"
  with assms show ?thesis by simp
next
  assume "\<exists>new issues. store_db (snd (submit_survey now payload st))
          = \<lparr>responses_table = responses_table (store_db st) @ [new],
             sqlite_sequence = row_id new\<rparr>
        \<and> row_issues new = json_dumps issues"
  then obtain new issues where
    d: "store_db (snd (submit_survey now payload st))
          = \<lparr>responses_table = responses_table (store_db st) @ [new],
             sqlite_sequence = row_id new\<rparr>"
    and i: "row_issues new = json_dumps issues" by blast
  from i have "json_loads (row_issues new) \<noteq> None" by (simp add: json_loads_dumps)
  with assms show ?thesis by (simp add: issues_valid_def d)
qed

lemma handle_issues_valid:
  assumes "issues_valid (store_db st)"
  shows "issues_valid (store_db (snd (handle req st)))"
proof (cases req)
  case (SubmitSurvey now payload)
  with assms show ?thesis by (simp add: submit_survey_issues_valid)
next
  case GetResponses
  with assms show ?thesis by (simp add: get_responses_state)
next
  case (ExportCsv stamp)
  with assms show ?thesis by (simp add: export_csv_db)
qed

lemma serve_issues_valid:
  "issues_valid (store_db st) \<Longrightarrow> issues_valid (store_db (snd (serve reqs st)))"
proof (induction reqs arbitrary: st)
  case Nil
  then show ?case by simp
next
  case (Cons req reqs)
  from Cons.prems have "issues_valid (store_db (snd (handle req st)))"
    by (rule handle_issues_valid)
  then have "issues_valid (store_db (snd (serve reqs (snd (handle req st)))))"
    by (rule Cons.IH)
  then show ?case by (simp add: split_def Let_def)
qed

lemma issues_valid_init: "issues_valid (init_database None)"
  by (simp add: issues_valid_def init_database_def)



lemma foldr_max_member: "x \<in> set xs \<Longrightarrow> x \<le> foldr max xs (s::int)"
  by (induction xs) (auto simp: max_def)

lemma row_id_le_largest: "r \<in> set (responses_table db) \<Longrightarrow> row_id r \<le> largest_rowid db"
  by (simp add: largest_rowid_def foldr_max_member)

lemma load_responses_issues:
  "load_responses rows = Inr responses \<Longrightarrow>
     map (\<lambda>r. Some (row_issues r)) (filter (\<lambda>r. row_id r = i) responses)
       = map (\<lambda>r. json_loads (row_issues r)) (filter (\<lambda>r. row_id r = i) rows)"
proof (induction rows arbitrary: responses)
  case Nil
  then show ?case by simp
next
  case (Cons r rows)
  from Cons.prems obtain issues rest where
    i: "json_loads (row_issues r) = Some issues"
    and l: "load_responses rows = Inr rest"
    and r: "responses = with_issues r issues # rest"
    by (auto split: option.splits sum.splits)
  from Cons.IH [OF l] i r show ?case
    by (simp add: row_id_with_issues row_issues_with_issues)
qed

lemma filter_new_row:
  assumes "\<forall>r \<in> set table. row_id r \<noteq> row_id new"
  shows "filter (\<lambda>r. row_id r = row_id new) (order_by_timestamp_desc (table @ [new])) = [new]"
proof -
  have "mset (filter (\<lambda>r. row_id r = row_id new) (order_by_timestamp_desc (table @ [new])))
      = filter_mset (\<lambda>r. row_id r = row_id new) (mset (table @ [new]))"
    by (simp add: order_by_timestamp_desc_mset)
  also have "\<dots> = {#new#}"
    using assms by (simp add: filter_mset_eq_conv) 
  finally show ?thesis by (simp only: mset_single_iff)
qed

text \<open>
  Claim C3. When a submission whose \<^verbatim>\<open>issues\<close> field is a list of strings is accepted
  (answered 200 with its identifier), on a store reached from a new database, listing the
  responses next returns exactly one row with that identifier, and its issues are the
  submitted list: the same strings in the same order. Writing the list with
  \<^verbatim>\<open>json.dumps\<close> and reading the text back with \<^verbatim>\<open>json.loads\<close> gives the list.
\<close>

theorem issues_round_trip:
  assumes "submit_survey now (JObj data)
             (snd (serve reqs \<lparr>store_db = init_database None, responses_json = backup, files = fs\<rparr>))
           = ((200, SavedBody message rowid), st')"
    and "map_of data ''issues'' = Some (JArr (map JStr xs))"
  shows "\<exists>rows. get_responses st' = ((200, ResponsesBody (length rows) rows), st')
           \<and> map row_issues (filter (\<lambda>r. row_id r = rowid) rows) = [JArr (map JStr xs)]
           \<and> json_loads (json_dumps (JArr (map JStr xs))) = Some (JArr (map JStr xs))"
proof -
  let ?st = "snd (serve reqs \<lparr>store_db = init_database None, responses_json = backup, files = fs\<rparr>)"
  let ?issues = "JArr (map JStr xs)"
  have rt: "json_loads (json_dumps ?issues) = Some ?issues"
    by (simp only: json_loads_dumps canon_strings)
  have "issues_valid (store_db \<lparr>store_db = init_database None,
                                responses_json = backup, files = fs\<rparr>)"
    by (simp add: issues_valid_init)
  then have v: "issues_valid (store_db ?st)" by (rule serve_issues_valid)
  from submit_survey_issues_valid [OF v, of now "JObj data"] assms(1)
  have v': "issues_valid (store_db st')" by simp
  from submit_survey_saved [OF assms] obtain new where
    d: "store_db st' = \<lparr>responses_table = responses_table (store_db ?st) @ [new],
                        sqlite_sequence = rowid\<rparr>"
    and i: "row_id new = rowid" and t: "row_issues new = json_dumps ?issues"
    and n: "rowid = largest_rowid (store_db ?st) + 1" by blast
  let ?table = "responses_table (store_db ?st)"
  let ?rows = "order_by_timestamp_desc (?table @ [new])"
  have "\<forall>r \<in> set ?table. row_id r \<noteq> row_id new"
    using row_id_le_largest [of _ "store_db ?st"] i n by fastforce
  then have f: "filter (\<lambda>r. row_id r = rowid) ?rows = [new]"
    using filter_new_row [of ?table new] i by simp
  have "set ?rows = set (?table @ [new])"
    using order_by_timestamp_desc_mset [of "?table @ [new]"] by (rule mset_eq_setD)
  with v' d have "list_all (\<lambda>r. json_loads (row_issues r) \<noteq> None) ?rows"
    by (simp add: issues_valid_def list_all_iff)
  from load_responses_valid [OF this] obtain responses where
    l: "load_responses ?rows = Inr responses" by blast
  from load_responses_issues [OF l, of rowid] f t rt
  have "map (\<lambda>r. Some (row_issues r)) (filter (\<lambda>r. row_id r = rowid) responses) = [Some ?issues]"
    by simp
  then have "map (Some \<circ> row_issues) (filter (\<lambda>r. row_id r = rowid) responses) = map Some [?issues]"
    by (simp add: comp_def)
  then have "map Some (map row_issues (filter (\<lambda>r. row_id r = rowid) responses)) = map Some [?issues]"
    by (simp only: map_map)
  then have m: "map row_issues (filter (\<lambda>r. row_id r = rowid) responses) = [?issues]"
    by (simp only: inj_map_eq_map [OF inj_Some])
  have g: "get_responses st' = ((200, ResponsesBody (length responses) responses), st')"
    using l d by (simp add: get_responses_def Let_def)
  show ?thesis by (intro exI [of _ responses] conjI g m rt)
qed

theorem issues_round_trip_witness:
  "\<exists>rows. get_responses (snd (submit_survey ''2026-01-01T10:00:00'' demo_payload empty_storage))
            = ((200, ResponsesBody (length rows) rows),
               snd (submit_survey ''2026-01-01T10:00:00'' demo_payload empty_storage))
     \<and> map row_issues (filter (\<lambda>r. row_id r = 1) rows) = [JArr [JStr ''housing'', JStr ''transit'']]
     \<and> json_loads (json_dumps (JArr [JStr ''housing'', JStr ''transit'']))
         = Some (JArr [JStr ''housing'', JStr ''transit''])"
proof -
  have "fst (submit_survey ''2026-01-01T10:00:00'' demo_payload empty_storage)
      = (200, SavedBody ''Survey response saved successfully'' 1)"
    by code_simp
  then have a: "submit_survey ''2026-01-01T10:00:00''
        (JObj [(''phoneNumber'', JStr ''6175550100''), (''name'', JStr ''Jane''),
               (''neighborhood'', JStr ''Hyde Park''), (''ageGroup'', JStr ''25-34''),
               (''votingFrequency'', JStr ''always''), (''engagement'', JStr ''high''),
               (''issues'', JArr [JStr ''housing'', JStr ''transit''])])
        (snd (serve [] \<lparr>store_db = init_database None, responses_json = None, files = []\<rparr>))
      = ((200, SavedBody ''Survey response saved successfully'' 1),
         snd (submit_survey ''2026-01-01T10:00:00'' demo_payload empty_storage))"
    by (simp add: demo_payload_def empty_storage_def prod_eq_iff)
  from issues_round_trip [OF a, of "[''housing'', ''transit'']"]
  show ?thesis by simp
qed


end
